theory Spec2Isabelle
  imports Complex_Main
begin

section \<open>Python values\<close>

text \<open>
  A parameter mapping is a Python \<^verbatim>\<open>dict\<close> from \<^verbatim>\<open>str\<close> to \<^verbatim>\<open>str\<close>. A dict
  remembers the order in which its keys were inserted and \<^verbatim>\<open>str(dict)\<close> prints the
  items in that order, so the model is an association list in insertion order (keys distinct).
  A character is a code point below 256.
\<close>

type_synonym dict = "(string \<times> string) list"

text \<open>The value \<^verbatim>\<open>response.json()\<close> returns: a parsed JSON document.\<close>

datatype json =
    JNull
  | JBool bool
  | JInt int
  | JFloat real
  | JStr string
  | JArr "json list"
  | JObj "(string \<times> json) list"

text \<open>Every exception a modelled function can raise.\<close>

datatype error =
    ConnectionError
  | HTTPError int
  | JSONDecodeError
  | OverflowError
  | AttributeError
  | TypeError
  | KeyError
  | IndexError

subsection \<open>\<^verbatim>\<open>str(params)\<close>\<close>

abbreviation (input) squote :: char where "squote \<equiv> CHR 0x27"
abbreviation (input) dquote :: char where "dquote \<equiv> CHR 0x22"
abbreviation (input) backslash :: char where "backslash \<equiv> CHR 0x5C"

text \<open>
  \<^verbatim>\<open>str.isprintable\<close> on the code points below 256: the C0 and C1 controls, DEL,
  the no-break space and the soft hyphen are not printable.
\<close>

definition isprintable :: "char \<Rightarrow> bool" where
  "isprintable c = (let n = (of_char c :: nat) in \<not> (n < 32 \<or> (127 \<le> n \<and> n \<le> 160) \<or> n = 173))"

definition hexdigit :: "nat \<Rightarrow> char" where
  "hexdigit n = ''0123456789abcdef'' ! n"

text \<open>One character of \<^verbatim>\<open>repr(s)\<close>, inside the quotes \<open>quote\<close>.\<close>

definition repr_char :: "char \<Rightarrow> char \<Rightarrow> string" where
  "repr_char quote c =
     (if c = quote \<or> c = backslash then [backslash, c]
      else if c = CHR 0x09 then [backslash, CHR ''t'']
      else if c = CHR 0x0A then [backslash, CHR ''n'']
      else if c = CHR 0x0D then [backslash, CHR ''r'']
      else if \<not> isprintable c then
        [backslash, CHR ''x'', hexdigit (of_char c div 16), hexdigit (of_char c mod 16)]
      else [c])"

text \<open>
  \<^verbatim>\<open>repr(s)\<close> of a string: single quotes, unless the string holds a single quote and
  no double quote.
\<close>

definition repr_str :: "string \<Rightarrow> string" where
  "repr_str s =
     (let quote = (if squote \<in> set s \<and> dquote \<notin> set s then dquote else squote)
      in quote # concat (map (repr_char quote) s) @ [quote])"

definition repr_item :: "string \<times> string \<Rightarrow> string" where
  "repr_item kv = repr_str (fst kv) @ '': '' @ repr_str (snd kv)"

fun join :: "string \<Rightarrow> string list \<Rightarrow> string" where
  "join sep [] = []"
| "join sep [x] = x"
| "join sep (x # y # ys) = x @ sep @ join sep (y # ys)"

definition repr_dict :: "dict \<Rightarrow> string" where
  "repr_dict d = ''{'' @ join '', '' (map repr_item d) @ ''}''"

text \<open>\<^verbatim>\<open>str(params)\<close>, where \<^verbatim>\<open>params\<close> is \<^verbatim>\<open>None\<close> or a dict.\<close>

definition py_str :: "dict option \<Rightarrow> string" where
  "py_str params = (case params of None \<Rightarrow> ''None'' | Some d \<Rightarrow> repr_dict d)"

subsection \<open>Operations on a dict\<close>

text \<open>\<^verbatim>\<open>params.get(k)\<close>: the value, or \<^verbatim>\<open>None\<close>.\<close>

definition dict_get :: "dict \<Rightarrow> string \<Rightarrow> string option" where
  "dict_get d k = map_of d k"

text \<open>
  \<^verbatim>\<open>params[k] = v\<close>: a key the dict holds keeps its place and takes the new value, a
  new key goes to the end.
\<close>

fun dict_set :: "string \<Rightarrow> string \<Rightarrow> dict \<Rightarrow> dict" where
  "dict_set k v [] = [(k, v)]"
| "dict_set k v ((k', v') # d) =
     (if k' = k then (k, v) # d else (k', v') # dict_set k v d)"

text \<open>The truth value of \<^verbatim>\<open>params.get(k)\<close>: \<^verbatim>\<open>None\<close> and the empty string are false.\<close>

definition truthy :: "string option \<Rightarrow> bool" where
  "truthy x = (case x of None \<Rightarrow> False | Some s \<Rightarrow> s \<noteq> [])"

text \<open>The truth value of a JSON value, as \<^verbatim>\<open>if\<close> reads it.\<close>

definition json_truthy :: "json \<Rightarrow> bool" where
  "json_truthy x =
     (case x of
        JNull \<Rightarrow> False
      | JBool b \<Rightarrow> b
      | JInt i \<Rightarrow> i \<noteq> 0
      | JFloat r \<Rightarrow> r \<noteq> 0
      | JStr s \<Rightarrow> s \<noteq> []
      | JArr xs \<Rightarrow> xs \<noteq> []
      | JObj kvs \<Rightarrow> kvs \<noteq> [])"

subsection \<open>\<^verbatim>\<open>datetime\<close>\<close>

text \<open>A naive \<^verbatim>\<open>datetime\<close>, as \<^verbatim>\<open>datetime.now()\<close> returns it.\<close>

record datetime =
  year :: nat
  month :: nat
  day :: nat
  hour :: nat
  minute :: nat
  second :: nat
  microsecond :: nat

definition is_leap :: "nat \<Rightarrow> bool" where
  "is_leap y = (y mod 4 = 0 \<and> (y mod 100 \<noteq> 0 \<or> y mod 400 = 0))"

definition days_in_month :: "nat \<Rightarrow> nat \<Rightarrow> nat" where
  "days_in_month y m =
     (if m = 2 then (if is_leap y then 29 else 28)
      else if m = 4 \<or> m = 6 \<or> m = 9 \<or> m = 11 then 30
      else 31)"

text \<open>
  \<^verbatim>\<open>t - timedelta(hours=24)\<close>: the same time of day on the day before. The day before
  0001-01-01 is out of range (\<^verbatim>\<open>OverflowError\<close>).
\<close>

definition minus_24_hours :: "datetime \<Rightarrow> error + datetime" where
  "minus_24_hours t =
     (if 1 < day t then Inr (t\<lparr>day := day t - 1\<rparr>)
      else if 1 < month t then
        Inr (t\<lparr>month := month t - 1, day := days_in_month (year t) (month t - 1)\<rparr>)
      else if 1 < year t then Inr (t\<lparr>year := year t - 1, month := 12, day := 31\<rparr>)
      else Inl OverflowError)"

text \<open>
  \<open>zpad w n\<close> is \<open>n\<close> in \<open>w\<close> decimal digits, for \<open>n < 10 ^ w\<close> (the decimal digits are
  the first ten of \<open>hexdigit\<close>).
\<close>

fun zpad :: "nat \<Rightarrow> nat \<Rightarrow> string" where
  "zpad 0 n = []"
| "zpad (Suc w) n = zpad w (n div 10) @ [hexdigit (n mod 10)]"

text \<open>
  \<^verbatim>\<open>t.isoformat()\<close>: \<^verbatim>\<open>YYYY-MM-DDTHH:MM:SS\<close>, followed by \<^verbatim>\<open>.ffffff\<close> when the
  microseconds are not zero.
\<close>

definition isoformat :: "datetime \<Rightarrow> string" where
  "isoformat t =
     zpad 4 (year t) @ ''-'' @ zpad 2 (month t) @ ''-'' @ zpad 2 (day t) @ ''T'' @
     zpad 2 (hour t) @ '':'' @ zpad 2 (minute t) @ '':'' @ zpad 2 (second t) @
     (if microsecond t = 0 then [] else ''.'' @ zpad 6 (microsecond t))"

section \<open>The world the service runs in\<close>

text \<open>\<^verbatim>\<open>config.py\<close>: the class \<^verbatim>\<open>Config\<close>.\<close>

record config =
  API_BASE_URL :: string
  CACHE_TIMEOUT :: real

definition Config :: config where
  "Config = \<lparr>API_BASE_URL = ''https://environment.data.gov.uk/flood-monitoring'',
              CACHE_TIMEOUT = 300\<rparr>"

text \<open>
  What \<^verbatim>\<open>requests.get\<close> does: it raises (no response), or it returns a response with a
  status code and a body; \<open>json_body\<close> is the parsed body, \<open>None\<close> when the body is not
  valid JSON.
\<close>

datatype response = Response (status_code: int) (json_body: "json option")

datatype reply = Unreachable | Received response

text \<open>\<^verbatim>\<open>Response.raise_for_status\<close>: the 4xx and 5xx statuses raise.\<close>

definition raise_for_status :: "response \<Rightarrow> error option" where
  "raise_for_status r =
     (if 400 \<le> status_code r \<and> status_code r < 600 then Some (HTTPError (status_code r))
      else None)"

text \<open>
  The state of the process and of its surroundings.
  \<^item> \<open>cache\<close> is the module-level dict \<^verbatim>\<open>cache\<close> of \<^verbatim>\<open>ea_service.py\<close>: key to
    (insertion time, data);
  \<^item> \<open>clock\<close> is what \<^verbatim>\<open>time.time()\<close> returns now, in seconds;
  \<^item> \<open>gets\<close> lists the calls of \<^verbatim>\<open>requests.get\<close> made so far, oldest first;
  \<^item> \<open>upstream n url params\<close> is what the upstream API does with the GET number \<open>n\<close>
    (counted from 0): its reply, and the seconds the clock moves while the call waits;
  \<^item> \<open>app\<close> is \<^verbatim>\<open>current_app.config\<close>;
  \<^item> \<open>wall\<close> is what \<^verbatim>\<open>datetime.now()\<close> returns now;
  \<^item> \<open>heap\<close> holds the dict objects that callers pass by reference: \<open>heap w a\<close> is the
    dict at the address \<open>a\<close>, and \<open>next_addr\<close> is the address the next new dict gets.
\<close>

record world =
  cache :: "string \<Rightarrow> (real \<times> json) option"
  clock :: real
  gets :: "(string \<times> dict option) list"
  upstream :: "nat \<Rightarrow> string \<Rightarrow> dict option \<Rightarrow> reply \<times> real"
  app :: config
  wall :: datetime
  heap :: "nat \<Rightarrow> dict"
  next_addr :: nat

text \<open>Time passing between two calls: the clock moves by \<open>d\<close> seconds.\<close>

definition elapse :: "real \<Rightarrow> world \<Rightarrow> world" where
  "elapse d w = w\<lparr>clock := clock w + d\<rparr>"

section \<open>\<^verbatim>\<open>ea_service.py\<close>\<close>

text \<open>Lines 10-11: the timeout in force.\<close>

definition ttl_of :: "world \<Rightarrow> real option \<Rightarrow> real" where
  "ttl_of w timeout = (case timeout of None \<Rightarrow> CACHE_TIMEOUT (app w) | Some t \<Rightarrow> t)"

text \<open>Line 14: \<^verbatim>\<open>cache_key = f"{url}?{str(params)}"\<close>.\<close>

definition cache_key :: "string \<Rightarrow> dict option \<Rightarrow> string" where
  "cache_key url params = url @ ''?'' @ py_str params"

text \<open>Lines 17-20: the cached data, when the key is cached and the entry is still fresh.\<close>

definition lookup :: "world \<Rightarrow> string \<Rightarrow> real \<Rightarrow> json option" where
  "lookup w key timeout =
     (case cache w key of
        None \<Rightarrow> None
      | Some (cached_time, cached_data) \<Rightarrow>
          if clock w - cached_time < timeout then Some cached_data else None)"

text \<open>
  \<^verbatim>\<open>get_with_cache(url, params=None, timeout=None)\<close>. The result is the value returned
  (\<open>Inr\<close>) or the exception raised (\<open>Inl\<close>), and the world after the call.
\<close>

definition get_with_cache ::
  "world \<Rightarrow> string \<Rightarrow> dict option \<Rightarrow> real option \<Rightarrow> (error + json) \<times> world" where
  "get_with_cache w url params timeout =
     (let ttl = ttl_of w timeout;
          key = cache_key url params
      in case lookup w key ttl of
           Some cached_data \<Rightarrow> (Inr cached_data, w)
         | None \<Rightarrow>
             (let (rep, dt) = upstream w (length (gets w)) url params;
                  w' = w\<lparr>gets := gets w @ [(url, params)], clock := clock w + dt\<rparr>
              in case rep of
                   Unreachable \<Rightarrow> (Inl ConnectionError, w')
                 | Received resp \<Rightarrow>
                     (case raise_for_status resp of
                        Some e \<Rightarrow> (Inl e, w')
                      | None \<Rightarrow>
                          (case json_body resp of
                             None \<Rightarrow> (Inl JSONDecodeError, w')
                           | Some data \<Rightarrow>
                               (Inr data,
                                w'\<lparr>cache := (cache w')(key \<mapsto> (clock w', data))\<rparr>)))))"

text \<open>\<^verbatim>\<open>get_stations(params=None)\<close>. It only reads \<^verbatim>\<open>params\<close>, so it takes the dict itself.\<close>

definition get_stations :: "world \<Rightarrow> dict option \<Rightarrow> (error + json) \<times> world" where
  "get_stations w params =
     (let base_url = API_BASE_URL (app w);
          url = base_url @ ''/id/stations''
      in get_with_cache w url params None)"

text \<open>\<^verbatim>\<open>params[k] = v\<close> on the dict at the address \<open>p\<close>.\<close>

definition setitem :: "nat \<Rightarrow> string \<Rightarrow> string \<Rightarrow> world \<Rightarrow> world" where
  "setitem p k v w = w\<lparr>heap := (heap w)(p := dict_set k v (heap w p))\<rparr>"

text \<open>
  \<^verbatim>\<open>get_station_readings(station_id, params=None)\<close>. It assigns into \<^verbatim>\<open>params\<close>, so
  \<open>params\<close> is the address of the caller's dict, or \<open>None\<close>; for \<open>None\<close> line 43 makes a
  new empty dict.
\<close>

definition get_station_readings ::
  "world \<Rightarrow> string \<Rightarrow> nat option \<Rightarrow> (error + json) \<times> world" where
  "get_station_readings w station_id params =
     (let base_url = API_BASE_URL (app w);
          (p, w1) = (case params of
                       None \<Rightarrow>
                         (next_addr w,
                          w\<lparr>heap := (heap w)(next_addr w := []), next_addr := Suc (next_addr w)\<rparr>)
                     | Some a \<Rightarrow> (a, w))
      in case (if \<not> truthy (dict_get (heap w1 p) ''today'') \<and>
                  \<not> truthy (dict_get (heap w1 p) ''since'') \<and>
                  \<not> truthy (dict_get (heap w1 p) ''date'')
               then (case minus_24_hours (wall w1) of
                       Inl e \<Rightarrow> Inl e
                     | Inr yesterday \<Rightarrow> Inr (setitem p ''since'' (isoformat yesterday) w1))
               else Inr w1) of
           Inl e \<Rightarrow> (Inl e, w1)
         | Inr w2 \<Rightarrow>
             (let w3 = setitem p ''_sorted'' [] w2;
                  url = base_url @ ''/id/stations/'' @ station_id @ ''/readings''
              in get_with_cache w3 url (Some (heap w3 p)) None))"

text \<open>The dict the caller supplies: the one at the address, or none (read as empty).\<close>

definition supplied :: "world \<Rightarrow> nat option \<Rightarrow> dict" where
  "supplied w params = (case params of None \<Rightarrow> [] | Some a \<Rightarrow> heap w a)"

text \<open>The address of the dict that \<^verbatim>\<open>params\<close> names from line 43 on.\<close>

definition param_addr :: "world \<Rightarrow> nat option \<Rightarrow> nat" where
  "param_addr w params = (case params of None \<Rightarrow> next_addr w | Some a \<Rightarrow> a)"

text \<open>Line 55: the URL of the readings of a station.\<close>

definition readings_url :: "world \<Rightarrow> string \<Rightarrow> string" where
  "readings_url w station_id = API_BASE_URL (app w) @ ''/id/stations/'' @ station_id @ ''/readings''"

section \<open>\<^verbatim>\<open>routes.py\<close>\<close>

text \<open>What a view returns: \<^verbatim>\<open>jsonify(x)\<close> is a response with the body \<open>x\<close> and status 200.\<close>

record http_response =
  status :: nat
  body :: json

definition jsonify :: "json \<Rightarrow> http_response" where
  "jsonify x = \<lparr>status = 200, body = x\<rparr>"

text \<open>
  \<^verbatim>\<open>station(station_id)\<close>, the view of \<^verbatim>\<open>/api/stations/<station_id>\<close>.
  \<^verbatim>\<open>stations_data.get\<close> exists on a dict only; \<^verbatim>\<open>stations_data['items'][0]\<close> is the
  first element of a list, the first character of a string, and raises on anything else.
\<close>

definition station :: "world \<Rightarrow> string \<Rightarrow> (error + http_response) \<times> world" where
  "station w station_id =
     (case get_stations w (Some [(''stationReference'', station_id)]) of
        (Inl e, w') \<Rightarrow> (Inl e, w')
      | (Inr stations_data, w') \<Rightarrow>
          (case stations_data of
             JObj kvs \<Rightarrow>
               (case map_of kvs ''items'' of
                  Some items \<Rightarrow>
                    if json_truthy items then
                      (case items of
                         JArr xs \<Rightarrow>
                           (case xs of
                              x # _ \<Rightarrow> (Inr (jsonify x), w')
                            | [] \<Rightarrow> (Inl IndexError, w'))
                       | JStr s \<Rightarrow>
                           (case s of
                              c # _ \<Rightarrow> (Inr (jsonify (JStr [c])), w')
                            | [] \<Rightarrow> (Inl IndexError, w'))
                       | JObj _ \<Rightarrow> (Inl KeyError, w')
                       | _ \<Rightarrow> (Inl TypeError, w'))
                    else
                      (Inr ((jsonify (JObj [(''error'', JStr ''Station not found'')]))
                              \<lparr>status := 404\<rparr>), w')
                | None \<Rightarrow>
                    (Inr ((jsonify (JObj [(''error'', JStr ''Station not found'')]))
                            \<lparr>status := 404\<rparr>), w'))
           | _ \<Rightarrow> (Inl AttributeError, w')))"

section \<open>Runs of calls and the clock\<close>

text \<open>
  A caller that calls \<^verbatim>\<open>get_with_cache\<close> with the same arguments again and again:
  once at first, and once more after each of the waits \<open>ds\<close> (in seconds). The results
  are listed in the order of the calls.
\<close>

fun calls ::
  "world \<Rightarrow> string \<Rightarrow> dict option \<Rightarrow> real option \<Rightarrow> real list \<Rightarrow>
   (error + json) list \<times> world" where
  "calls w url params timeout [] =
     (let (r, w') = get_with_cache w url params timeout in ([r], w'))"
| "calls w url params timeout (d # ds) =
     (let (r, w') = get_with_cache w url params timeout;
          (rs, w'') = calls (elapse d w') url params timeout ds
      in (r # rs, w''))"

text \<open>The upstream answers with a 4xx or 5xx status.\<close>

definition http_error :: "reply \<times> real \<Rightarrow> bool" where
  "http_error x =
     (case fst x of
        Unreachable \<Rightarrow> False
      | Received r \<Rightarrow> 400 \<le> status_code r \<and> status_code r < 600)"

text \<open>The call raised \<^verbatim>\<open>HTTPError\<close>.\<close>

definition is_HTTPError :: "error + json \<Rightarrow> bool" where
  "is_HTTPError r = (case r of Inl (HTTPError c) \<Rightarrow> True | _ \<Rightarrow> False)"

text \<open>
  A clock that never runs backwards: no entry of the cache is stamped later than now, and
  the clock does not go back while a GET waits.
\<close>

definition no_future :: "world \<Rightarrow> bool" where
  "no_future w = (\<forall>k t d. cache w k = Some (t, d) \<longrightarrow> t \<le> clock w)"

definition steady :: "world \<Rightarrow> bool" where
  "steady w = (\<forall>n url params. 0 \<le> snd (upstream w n url params))"

section \<open>Example worlds\<close>

text \<open>An upstream that answers a GET with a document that holds the number of the GET.\<close>

definition up :: "nat \<Rightarrow> string \<Rightarrow> dict option \<Rightarrow> reply \<times> real" where
  "up n url params =
     (Received (Response 200 (Some (JObj [(''items'', JArr [JInt (int n)])]))), 1)"

text \<open>A process that has just started: nothing cached, no GET made, one dict on the heap.\<close>

definition started :: world where
  "started =
     \<lparr>cache = Map.empty, clock = 1000, gets = [], upstream = up, app = Config,
      wall = \<lparr>year = 2024, month = 3, day = 1, hour = 12, minute = 30, second = 5,
               microsecond = 0\<rparr>,
      heap = (\<lambda>a. []), next_addr = 1\<rparr>"

text \<open>An upstream that answers the first three GETs with status 500, then recovers.\<close>

definition flaky :: "nat \<Rightarrow> string \<Rightarrow> dict option \<Rightarrow> reply \<times> real" where
  "flaky n url params = (if n < 3 then (Received (Response 500 None), 1) else up n url params)"

definition outage :: world where
  "outage = started\<lparr>upstream := flaky\<rparr>"

text \<open>An upstream that knows no station: every list of items is empty.\<close>

definition up_empty :: "nat \<Rightarrow> string \<Rightarrow> dict option \<Rightarrow> reply \<times> real" where
  "up_empty n url params = (Received (Response 200 (Some (JObj [(''items'', JArr [])]))), 1)"

definition unknown :: world where
  "unknown = started\<lparr>upstream := up_empty\<rparr>"

text \<open>
  An upstream that answers every GET with status 300 (Multiple Choices) and a JSON body: not
  a success status, and not one that \<^verbatim>\<open>raise_for_status\<close> rejects.
\<close>

definition choices :: "nat \<Rightarrow> string \<Rightarrow> dict option \<Rightarrow> reply \<times> real" where
  "choices n url params =
     (Received (Response 300 (Some (JObj [(''items'', JArr [JInt (int n)])]))), 1)"

definition undecided :: world where
  "undecided = started\<lparr>upstream := choices\<rparr>"

text \<open>
  Callers' dicts: \<^verbatim>\<open>{'date': ''}\<close>, \<^verbatim>\<open>{'since': '', '_sorted': 'asc'}\<close> and
  \<^verbatim>\<open>{'date': '2024-01-01'}\<close>.
\<close>

definition blank_date :: world where
  "blank_date = started\<lparr>heap := (\<lambda>a. [(''date'', [])])\<rparr>"

definition blank_since :: world where
  "blank_since = started\<lparr>heap := (\<lambda>a. [(''since'', []), (''_sorted'', ''asc'')])\<rparr>"

definition dated :: world where
  "dated = started\<lparr>heap := (\<lambda>a. [(''date'', ''2024-01-01'')])\<rparr>"

section \<open>The caching proxy\<close>

subsection \<open>The three ways a call ends\<close>

lemma ttl_of_app: "app w' = app w \<Longrightarrow> ttl_of w' timeout = ttl_of w timeout"
  by (cases timeout) (simp_all add: ttl_of_def)

lemma elapse_simps [simp]:
  "cache (elapse d w) = cache w" "clock (elapse d w) = clock w + d" "gets (elapse d w) = gets w"
  "upstream (elapse d w) = upstream w" "app (elapse d w) = app w"
  by (simp_all add: elapse_def)

lemma get_with_cache_hit:
  "lookup w (cache_key url params) (ttl_of w timeout) = Some d \<Longrightarrow>
   get_with_cache w url params timeout = (Inr d, w)"
  by (simp add: get_with_cache_def)

lemma get_with_cache_fetched:
  assumes "lookup w (cache_key url params) (ttl_of w timeout) = None"
      and "upstream w (length (gets w)) url params = (Received (Response st (Some data)), dt)"
      and "\<not> (400 \<le> st \<and> st < 600)"
  shows "get_with_cache w url params timeout =
           (Inr data,
            w\<lparr>gets := gets w @ [(url, params)], clock := clock w + dt,
              cache := (cache w)(cache_key url params \<mapsto> (clock w + dt, data))\<rparr>)"
  using assms by (simp add: get_with_cache_def raise_for_status_def)

lemma get_with_cache_http_error:
  assumes "lookup w (cache_key url params) (ttl_of w timeout) = None"
      and "upstream w (length (gets w)) url params = (Received r, dt)"
      and "400 \<le> status_code r" and "status_code r < 600"
  shows "get_with_cache w url params timeout =
           (Inl (HTTPError (status_code r)),
            w\<lparr>gets := gets w @ [(url, params)], clock := clock w + dt\<rparr>)"
  using assms by (simp add: get_with_cache_def raise_for_status_def)

lemma get_with_cache_env:
  "get_with_cache w url params timeout = (r, w') \<Longrightarrow> app w' = app w \<and> upstream w' = upstream w"
  by (auto simp: get_with_cache_def Let_def split: option.splits prod.splits reply.splits)

lemma get_with_cache_other_keys:
  "get_with_cache w url params timeout = (r, w') \<Longrightarrow> k \<noteq> cache_key url params \<Longrightarrow> cache w' k = cache w k"
  by (auto simp: get_with_cache_def Let_def split: option.splits prod.splits reply.splits)

lemma get_with_cache_returns:
  assumes "get_with_cache w url params timeout = (Inr v, w1)"
  shows "(lookup w (cache_key url params) (ttl_of w timeout) = Some v \<and> w1 = w) \<or>
         (lookup w (cache_key url params) (ttl_of w timeout) = None \<and>
          w1 = w\<lparr>gets := gets w @ [(url, params)],
                 clock := clock w + snd (upstream w (length (gets w)) url params),
                 cache := (cache w)(cache_key url params \<mapsto>
                            (clock w + snd (upstream w (length (gets w)) url params), v))\<rparr>)"
  using assms
  by (auto simp: get_with_cache_def Let_def split: option.splits prod.splits reply.splits)

lemma get_with_cache_cases:
  assumes "get_with_cache w url params timeout = (r, w')"
  shows "w' = w \<or>
         w' = w\<lparr>gets := gets w @ [(url, params)],
                 clock := clock w + snd (upstream w (length (gets w)) url params)\<rparr> \<or>
         (\<exists>data. w' = w\<lparr>gets := gets w @ [(url, params)],
                 clock := clock w + snd (upstream w (length (gets w)) url params),
                 cache := (cache w)(cache_key url params \<mapsto>
                            (clock w + snd (upstream w (length (gets w)) url params), data))\<rparr>)"
  using assms
  by (auto simp: get_with_cache_def Let_def split: option.splits prod.splits reply.splits)

lemma lookup_later:
  assumes "lookup w key ttl = None" and "clock w \<le> clock w'" and "cache w' = cache w"
  shows "lookup w' key ttl = None"
  using assms by (auto simp: lookup_def split: option.splits if_splits)

lemma second_call_hits:
  assumes first: "get_with_cache w url params timeout = (Inr v, w1)"
      and pos: "0 < ttl_of w timeout"
  shows "get_with_cache w1 url params timeout = (Inr v, w1) \<and>
         gets w1 = (if lookup w (cache_key url params) (ttl_of w timeout) = None
                    then gets w @ [(url, params)] else gets w)"
proof -
  from get_with_cache_returns [OF first] show ?thesis
  proof (elim disjE conjE)
    assume hit: "lookup w (cache_key url params) (ttl_of w timeout) = Some v" and same: "w1 = w"
    from hit have "get_with_cache w url params timeout = (Inr v, w)"
      by (rule get_with_cache_hit)
    with hit same show ?thesis by simp
  next
    assume miss: "lookup w (cache_key url params) (ttl_of w timeout) = None"
       and w1: "w1 = w\<lparr>gets := gets w @ [(url, params)],
                 clock := clock w + snd (upstream w (length (gets w)) url params),
                 cache := (cache w)(cache_key url params \<mapsto>
                            (clock w + snd (upstream w (length (gets w)) url params), v))\<rparr>"
    from w1 have "app w1 = app w" by simp
    then have ttl: "ttl_of w1 timeout = ttl_of w timeout" by (rule ttl_of_app)
    from w1 pos have "lookup w1 (cache_key url params) (ttl_of w timeout) = Some v"
      by (simp add: lookup_def)
    with ttl have "lookup w1 (cache_key url params) (ttl_of w1 timeout) = Some v" by simp
    then have "get_with_cache w1 url params timeout = (Inr v, w1)"
      by (rule get_with_cache_hit)
    moreover from w1 have "gets w1 = gets w @ [(url, params)]" by simp
    ultimately show ?thesis using miss by simp
  qed
qed

lemma get_with_cache_gets:
  "gets (snd (get_with_cache w url params timeout)) =
     (if lookup w (cache_key url params) (ttl_of w timeout) = None
      then gets w @ [(url, params)] else gets w)"
  by (auto simp: get_with_cache_def Let_def split: option.splits prod.splits reply.splits)

lemma get_with_cache_heap:
  "heap (snd (get_with_cache w url params timeout)) = heap w"
  by (auto simp: get_with_cache_def Let_def split: option.splits prod.splits reply.splits)

lemma lookup_heap [simp]:
  "lookup (w\<lparr>heap := h\<rparr>) = lookup w" "lookup (w\<lparr>next_addr := n\<rparr>) = lookup w"
  by (simp_all add: lookup_def fun_eq_iff split: option.splits)

lemma ttl_of_heap [simp]:
  "ttl_of (w\<lparr>heap := h\<rparr>) t = ttl_of w t" "ttl_of (w\<lparr>next_addr := n\<rparr>) t = ttl_of w t"
  by (simp_all add: ttl_of_def split: option.splits)

lemma ttl_of_None: "ttl_of w None = CACHE_TIMEOUT (app w)"
  by (simp add: ttl_of_def)

lemma lookup_empty: "cache w = Map.empty \<Longrightarrow> lookup w key ttl = None"
  by (simp add: lookup_def)

subsection \<open>The clock never runs backwards\<close>

lemma no_future_empty: "cache w = Map.empty \<Longrightarrow> no_future w"
  by (simp add: no_future_def)

lemma no_future_elapse: "no_future w \<Longrightarrow> 0 \<le> d \<Longrightarrow> no_future (elapse d w)"
  by (fastforce simp: no_future_def)

lemma no_future_get_with_cache:
  assumes nf: "no_future w" and st: "steady w"
      and call: "get_with_cache w url params timeout = (r, w')"
  shows "no_future w'"
proof -
  define dt where "dt = snd (upstream w (length (gets w)) url params)"
  have dt: "0 \<le> dt"
    using st by (simp add: steady_def dt_def)
  have le: "t \<le> clock w + dt" if "cache w k = Some (t, d)" for k t d
  proof -
    from nf that have "t \<le> clock w" unfolding no_future_def by blast
    with dt show ?thesis by linarith
  qed
  from get_with_cache_cases [OF call, folded dt_def]
  consider "w' = w"
    | "w' = w\<lparr>gets := gets w @ [(url, params)], clock := clock w + dt\<rparr>"
    | data where "w' = w\<lparr>gets := gets w @ [(url, params)], clock := clock w + dt,
                 cache := (cache w)(cache_key url params \<mapsto> (clock w + dt, data))\<rparr>"
    by blast
  then show ?thesis
  proof cases
    case 1
    with nf show ?thesis by simp
  next
    case 2
    show ?thesis unfolding no_future_def
    proof (intro allI impI)
      fix k t d assume "cache w' k = Some (t, d)"
      with 2 have "cache w k = Some (t, d)" by simp
      from le [OF this] 2 show "t \<le> clock w'" by simp
    qed
  next
    case 3
    show ?thesis unfolding no_future_def
    proof (intro allI impI)
      fix k t d assume c: "cache w' k = Some (t, d)"
      show "t \<le> clock w'"
      proof (cases "k = cache_key url params")
        case True
        with c 3 show ?thesis by simp
      next
        case False
        with c 3 have "cache w k = Some (t, d)" by simp
        from le [OF this] 3 show ?thesis by simp
      qed
    qed
  qed
qed

subsection \<open>Failing calls\<close>

lemma http_error_call:
  assumes miss: "lookup w (cache_key url params) (ttl_of w timeout) = None"
      and bad: "http_error (upstream w (length (gets w)) url params)"
  shows "\<exists>c. get_with_cache w url params timeout =
           (Inl (HTTPError c),
            w\<lparr>gets := gets w @ [(url, params)],
              clock := clock w + snd (upstream w (length (gets w)) url params)\<rparr>)"
proof -
  obtain rep dt where u: "upstream w (length (gets w)) url params = (rep, dt)"
    by (cases "upstream w (length (gets w)) url params")
  with bad obtain r where r: "rep = Received r" "400 \<le> status_code r" "status_code r < 600"
    by (cases rep) (auto simp: http_error_def)
  from get_with_cache_http_error [OF miss u [unfolded r(1)] r(2) r(3)] u
  show ?thesis by auto
qed

lemma calls_all_fail:
  assumes "steady w" and "\<forall>d\<in>set ds. 0 \<le> d"
      and "lookup w (cache_key url params) (ttl_of w timeout) = None"
      and "\<forall>i\<le>length ds. http_error (upstream w (length (gets w) + i) url params)"
  shows "list_all is_HTTPError (fst (calls w url params timeout ds)) \<and>
         length (fst (calls w url params timeout ds)) = Suc (length ds) \<and>
         cache (snd (calls w url params timeout ds)) = cache w \<and>
         gets (snd (calls w url params timeout ds)) = gets w @ replicate (Suc (length ds)) (url, params) \<and>
         upstream (snd (calls w url params timeout ds)) = upstream w \<and>
         app (snd (calls w url params timeout ds)) = app w \<and>
         lookup (snd (calls w url params timeout ds)) (cache_key url params) (ttl_of w timeout) = None"
  using assms
proof (induction ds arbitrary: w)
  case Nil
  from Nil.prems(4) have bad: "http_error (upstream w (length (gets w)) url params)" by simp
  from http_error_call [OF Nil.prems(3) bad] obtain c where
    c: "get_with_cache w url params timeout =
           (Inl (HTTPError c),
            w\<lparr>gets := gets w @ [(url, params)],
              clock := clock w + snd (upstream w (length (gets w)) url params)\<rparr>)" ..
  have dt: "0 \<le> snd (upstream w (length (gets w)) url params)"
    using Nil.prems(1) by (simp add: steady_def)
  have "lookup (w\<lparr>gets := gets w @ [(url, params)],
              clock := clock w + snd (upstream w (length (gets w)) url params)\<rparr>)
          (cache_key url params) (ttl_of w timeout) = None"
    by (rule lookup_later [OF Nil.prems(3)]) (use dt in simp_all)
  with c show ?case by (simp add: is_HTTPError_def)
next
  case (Cons d ds)
  from Cons.prems(4) have bad: "http_error (upstream w (length (gets w)) url params)"
    by (metis add.right_neutral le0)
  from http_error_call [OF Cons.prems(3) bad] obtain c where
    c: "get_with_cache w url params timeout =
           (Inl (HTTPError c),
            w\<lparr>gets := gets w @ [(url, params)],
              clock := clock w + snd (upstream w (length (gets w)) url params)\<rparr>)" ..
  define w1 where "w1 = elapse d (w\<lparr>gets := gets w @ [(url, params)],
              clock := clock w + snd (upstream w (length (gets w)) url params)\<rparr>)"
  have dt: "0 \<le> snd (upstream w (length (gets w)) url params)"
    using Cons.prems(1) by (simp add: steady_def)
  have d: "0 \<le> d" using Cons.prems(2) by simp
  have s1: "steady w1" using Cons.prems(1) by (simp add: steady_def w1_def)
  have ds: "\<forall>d\<in>set ds. 0 \<le> d" using Cons.prems(2) by simp
  have ttl: "ttl_of w1 timeout = ttl_of w timeout"
    by (rule ttl_of_app) (simp add: w1_def)
  have "lookup w1 (cache_key url params) (ttl_of w timeout) = None"
    by (rule lookup_later [OF Cons.prems(3)]) (use dt d in \<open>simp_all add: w1_def\<close>)
  with ttl have l1: "lookup w1 (cache_key url params) (ttl_of w1 timeout) = None" by simp
  have g1: "gets w1 = gets w @ [(url, params)]" by (simp add: w1_def)
  have u1: "upstream w1 = upstream w" by (simp add: w1_def)
  have e1: "\<forall>i\<le>length ds. http_error (upstream w1 (length (gets w1) + i) url params)"
  proof (intro allI impI)
    fix i assume "i \<le> length ds"
    then have "Suc i \<le> length (d # ds)" by simp
    with Cons.prems(4) have "http_error (upstream w (length (gets w) + Suc i) url params)" by blast
    then show "http_error (upstream w1 (length (gets w1) + i) url params)"
      by (simp add: g1 u1)
  qed
  note IH = Cons.IH [OF s1 ds l1 e1]
  have calls: "calls w url params timeout (d # ds) =
          (Inl (HTTPError c) # fst (calls w1 url params timeout ds),
           snd (calls w1 url params timeout ds))"
    by (simp add: c w1_def split: prod.splits)
  have c1: "cache w1 = cache w" and a1: "app w1 = app w" by (simp_all add: w1_def)
  show ?case
    unfolding calls using IH
    by (simp add: is_HTTPError_def g1 u1 c1 a1 ttl replicate_app_Cons_same)
qed

section \<open>The cache key\<close>

text \<open>
  \<^verbatim>\<open>str(params)\<close> can be read back: the text of a string ends at its closing quote, the
  only quote in it that no backslash precedes. So two parameter values with the same text are
  the same value, items in the same order.
\<close>

lemma hexdigit_inj:
  assumes "a < 16" "b < 16" "hexdigit a = hexdigit b"
  shows "a = b"
proof -
  have d: "distinct ''0123456789abcdef''" by simp
  have l: "length ''0123456789abcdef'' = 16" by simp
  from assms show ?thesis
    unfolding hexdigit_def using nth_eq_iff_index_eq [OF d, of a b] l by simp
qed

lemma hex_pair_inj:
  assumes "hexdigit (of_char c div 16) = hexdigit (of_char c' div 16)"
      and "hexdigit (of_char c mod 16) = hexdigit (of_char c' mod 16)"
  shows "c = c'"
proof -
  have b: "of_char c < (256 :: nat)" "of_char c' < (256 :: nat)"
    by simp_all
  then have d: "(of_char c :: nat) div 16 < 16" "(of_char c' :: nat) div 16 < 16"
    by (simp_all add: div_less_iff_less_mult)
  have 1: "(of_char c :: nat) div 16 = of_char c' div 16"
    by (rule hexdigit_inj [OF d assms(1)])
  have m: "(of_char c :: nat) mod 16 < 16" "(of_char c' :: nat) mod 16 < 16" by simp_all
  have 2: "(of_char c :: nat) mod 16 = of_char c' mod 16"
    by (rule hexdigit_inj [OF m assms(2)])
  from 1 2 have "(of_char c :: nat) = of_char c'"
    by (metis div_mult_mod_eq)
  then show ?thesis by simp
qed

lemma repr_char_prefix:
  assumes q: "q = CHR 0x27 \<or> q = CHR 0x22"
      and e: "repr_char q c @ r = repr_char q c' @ r'"
  shows "c = c' \<and> r = r'"
  using q e
  by (auto simp: repr_char_def split: if_splits dest: hex_pair_inj)

lemma repr_char_not_quote:
  assumes q: "q = CHR 0x27 \<or> q = CHR 0x22"
  shows "repr_char q c @ r \<noteq> q # r'"
  using q by (auto simp: repr_char_def split: if_splits)

lemma repr_body_inj:
  assumes q: "q = CHR 0x27 \<or> q = CHR 0x22"
  shows "concat (map (repr_char q) s) @ q # r = concat (map (repr_char q) s') @ q # r'
         \<Longrightarrow> s = s' \<and> r = r'"
proof (induction s arbitrary: s')
  case Nil
  show ?case
  proof (cases s')
    case Nil
    with Nil.prems show ?thesis by simp
  next
    case (Cons c' t')
    with Nil.prems have "repr_char q c' @ (concat (map (repr_char q) t') @ q # r') = q # r"
      by simp
    with repr_char_not_quote [OF q] show ?thesis by blast
  qed
next
  case (Cons c t)
  show ?case
  proof (cases s')
    case Nil
    with Cons.prems have "repr_char q c @ (concat (map (repr_char q) t) @ q # r) = q # r'"
      by simp
    with repr_char_not_quote [OF q] show ?thesis by blast
  next
    case (Cons c' t')
    with Cons.prems have
      "repr_char q c @ (concat (map (repr_char q) t) @ q # r) =
       repr_char q c' @ (concat (map (repr_char q) t') @ q # r')"
      by simp
    from repr_char_prefix [OF q this]
    have "c = c'" and "concat (map (repr_char q) t) @ q # r = concat (map (repr_char q) t') @ q # r'"
      by simp_all
    with Cons.IH [of t'] Cons show ?thesis by simp
  qed
qed

lemma repr_str_inj:
  assumes "repr_str s @ r = repr_str s' @ r'"
  shows "s = s' \<and> r = r'"
proof -
  define q where "q = (if CHR 0x27 \<in> set s \<and> CHR 0x22 \<notin> set s then CHR 0x22 else CHR 0x27)"
  define q' where "q' = (if CHR 0x27 \<in> set s' \<and> CHR 0x22 \<notin> set s' then CHR 0x22 else CHR 0x27)"
  have q: "q = CHR 0x27 \<or> q = CHR 0x22" by (simp add: q_def)
  have s: "repr_str s = q # concat (map (repr_char q) s) @ [q]"
    by (simp add: repr_str_def q_def Let_def)
  have s': "repr_str s' = q' # concat (map (repr_char q') s') @ [q']"
    by (simp add: repr_str_def q'_def Let_def)
  from assms s s' have "q = q'" by simp
  with assms s s' have "concat (map (repr_char q) s) @ q # r = concat (map (repr_char q) s') @ q # r'"
    by simp
  from repr_body_inj [OF q this] show ?thesis .
qed

lemma repr_str_quoted:
  "\<exists>q t. repr_str s = q # t \<and> (q = CHR 0x27 \<or> q = CHR 0x22)"
  by (simp add: repr_str_def Let_def)

lemma repr_item_inj:
  assumes "repr_item kv @ r = repr_item kv' @ r'"
  shows "kv = kv' \<and> r = r'"
proof -
  from assms have
    "repr_str (fst kv) @ ('': '' @ repr_str (snd kv) @ r) =
     repr_str (fst kv') @ ('': '' @ repr_str (snd kv') @ r')"
    by (simp add: repr_item_def)
  from repr_str_inj [OF this]
  have k: "fst kv = fst kv'" and "repr_str (snd kv) @ r = repr_str (snd kv') @ r'"
    by simp_all
  from repr_str_inj [OF this(2)] k show ?thesis
    by (simp add: prod_eq_iff)
qed

lemma repr_item_quoted:
  "\<exists>q t. repr_item kv = q # t \<and> (q = CHR 0x27 \<or> q = CHR 0x22)"
  using repr_str_quoted [of "fst kv"] by (auto simp: repr_item_def)

lemma join_Cons:
  "join sep (x # xs) = (if xs = [] then x else x @ sep @ join sep xs)"
  by (cases xs) simp_all

lemma items_start:
  "\<exists>q t. join '', '' (map repr_item (x # d)) @ r = q # t \<and> (q = CHR 0x27 \<or> q = CHR 0x22)"
  using repr_item_quoted [of x] by (auto simp: join_Cons)

lemma items_inj:
  "join '', '' (map repr_item d) @ CHR ''}'' # r = join '', '' (map repr_item d') @ CHR ''}'' # r'
   \<Longrightarrow> d = d' \<and> r = r'"
proof (induction d arbitrary: d')
  case Nil
  show ?case
  proof (cases d')
    case Nil
    with Nil.prems show ?thesis by simp
  next
    case (Cons x' t')
    from items_start [of x' t' "CHR ''}'' # r'"] Nil.prems Cons show ?thesis by auto
  qed
next
  case (Cons x t)
  show ?case
  proof (cases d')
    case Nil
    from items_start [of x t "CHR ''}'' # r"] Cons.prems Nil show ?thesis by auto
  next
    case c: (Cons x' t')
    define rest where
      "rest = (if t = [] then CHR ''}'' # r else '', '' @ join '', '' (map repr_item t) @ CHR ''}'' # r)"
    define rest' where
      "rest' = (if t' = [] then CHR ''}'' # r' else '', '' @ join '', '' (map repr_item t') @ CHR ''}'' # r')"
    from Cons.prems c have "repr_item x @ rest = repr_item x' @ rest'"
      by (simp add: join_Cons rest_def rest'_def split: if_splits)
    from repr_item_inj [OF this] have x: "x = x'" and r: "rest = rest'" by simp_all
    show ?thesis
    proof (cases "t = []")
      case True
      with r have "t' = []" by (auto simp: rest_def rest'_def split: if_splits)
      with True r x c show ?thesis by (simp add: rest_def rest'_def)
    next
      case False
      with r have f': "t' \<noteq> []" by (auto simp: rest_def rest'_def split: if_splits)
      with False r have
        "join '', '' (map repr_item t) @ CHR ''}'' # r = join '', '' (map repr_item t') @ CHR ''}'' # r'"
        by (simp add: rest_def rest'_def)
      from Cons.IH [OF this] x c show ?thesis by simp
    qed
  qed
qed

lemma repr_dict_inj: "repr_dict d = repr_dict d' \<Longrightarrow> d = d'"
  using items_inj [of d "[]" d' "[]"] by (simp add: repr_dict_def)

lemma repr_dict_not_None: "repr_dict d \<noteq> ''None''"
  by (simp add: repr_dict_def)

lemma py_str_inj:
  assumes "py_str p = py_str q"
  shows "p = q"
proof (cases p)
  case None
  with assms repr_dict_not_None show ?thesis
    by (cases q) (auto simp: py_str_def)
next
  case p: (Some d)
  show ?thesis
  proof (cases q)
    case None
    with assms p repr_dict_not_None [of d] show ?thesis by (simp add: py_str_def)
  next
    case (Some d')
    with assms p have "repr_dict d = repr_dict d'" by (simp add: py_str_def)
    then have "d = d'" by (rule repr_dict_inj)
    with p Some show ?thesis by simp
  qed
qed

lemma cache_key_inj: "cache_key url p = cache_key url q \<longleftrightarrow> p = q"
  by (auto simp: cache_key_def dest: py_str_inj)

lemma other_key_miss:
  assumes first: "get_with_cache w url p timeout = (r, w1)"
      and keys: "cache_key url q \<noteq> cache_key url p"
      and cold: "cache w (cache_key url q) = None"
  shows "gets (snd (get_with_cache w1 url q timeout)) = gets w1 @ [(url, q)]"
proof -
  from get_with_cache_other_keys [OF first keys] cold
  have "cache w1 (cache_key url q) = None" by simp
  then have "lookup w1 (cache_key url q) (ttl_of w1 timeout) = None"
    by (simp add: lookup_def)
  then show ?thesis by (simp add: get_with_cache_gets)
qed

lemma py_str_ab:
  "py_str (Some [(''a'', ''1''), (''b'', ''2'')]) =
     ''{'' @ [CHR 0x27] @ ''a'' @ [CHR 0x27] @ '': '' @ [CHR 0x27] @ ''1'' @ [CHR 0x27] @ '', '' @
     [CHR 0x27] @ ''b'' @ [CHR 0x27] @ '': '' @ [CHR 0x27] @ ''2'' @ [CHR 0x27] @ ''}''"
  by (simp add: py_str_def repr_dict_def repr_item_def repr_str_def repr_char_def isprintable_def
        Let_def)

lemma py_str_ba:
  "py_str (Some [(''b'', ''2''), (''a'', ''1'')]) =
     ''{'' @ [CHR 0x27] @ ''b'' @ [CHR 0x27] @ '': '' @ [CHR 0x27] @ ''2'' @ [CHR 0x27] @ '', '' @
     [CHR 0x27] @ ''a'' @ [CHR 0x27] @ '': '' @ [CHR 0x27] @ ''1'' @ [CHR 0x27] @ ''}''"
  by (simp add: py_str_def repr_dict_def repr_item_def repr_str_def repr_char_def isprintable_def
        Let_def)

section \<open>Shaping the parameters of a readings request\<close>

lemma dict_get_set: "dict_get (dict_set k v d) k' = (if k' = k then Some v else dict_get d k')"
  by (induction d) (auto simp: dict_get_def)

lemma get_station_readings_inject:
  assumes "\<not> truthy (dict_get (supplied w params) ''today'')"
      and "\<not> truthy (dict_get (supplied w params) ''since'')"
      and "\<not> truthy (dict_get (supplied w params) ''date'')"
      and "minus_24_hours (wall w) = Inr y"
  shows "get_station_readings w station_id params =
           get_with_cache
             (w\<lparr>next_addr := (case params of None \<Rightarrow> Suc (next_addr w) | Some a \<Rightarrow> next_addr w),
                heap := (heap w)(param_addr w params :=
                   dict_set ''_sorted'' [] (dict_set ''since'' (isoformat y) (supplied w params)))\<rparr>)
             (readings_url w station_id)
             (Some (dict_set ''_sorted'' [] (dict_set ''since'' (isoformat y) (supplied w params))))
             None"
  using assms
  by (cases params)
     (simp_all add: get_station_readings_def supplied_def param_addr_def readings_url_def
        setitem_def Let_def)

lemma get_station_readings_bypass:
  assumes "truthy (dict_get (supplied w params) ''today'') \<or>
           truthy (dict_get (supplied w params) ''since'') \<or>
           truthy (dict_get (supplied w params) ''date'')"
  shows "get_station_readings w station_id params =
           get_with_cache
             (w\<lparr>next_addr := (case params of None \<Rightarrow> Suc (next_addr w) | Some a \<Rightarrow> next_addr w),
                heap := (heap w)(param_addr w params := dict_set ''_sorted'' [] (supplied w params))\<rparr>)
             (readings_url w station_id)
             (Some (dict_set ''_sorted'' [] (supplied w params)))
             None"
  using assms
  by (cases params)
     (auto simp add: get_station_readings_def supplied_def param_addr_def readings_url_def
        setitem_def Let_def truthy_def dict_get_def)

lemma gets_inject:
  assumes "\<not> truthy (dict_get (supplied w params) ''today'')"
      and "\<not> truthy (dict_get (supplied w params) ''since'')"
      and "\<not> truthy (dict_get (supplied w params) ''date'')"
      and "minus_24_hours (wall w) = Inr y"
  shows "gets (snd (get_station_readings w station_id params)) =
           (if lookup w (cache_key (readings_url w station_id)
                  (Some (dict_set ''_sorted'' [] (dict_set ''since'' (isoformat y) (supplied w params)))))
                 (CACHE_TIMEOUT (app w)) = None
            then gets w @ [(readings_url w station_id,
                  Some (dict_set ''_sorted'' [] (dict_set ''since'' (isoformat y) (supplied w params))))]
            else gets w)"
  unfolding get_station_readings_inject [OF assms] get_with_cache_gets
  by (simp add: ttl_of_None)

lemma gets_bypass:
  assumes "truthy (dict_get (supplied w params) ''today'') \<or>
           truthy (dict_get (supplied w params) ''since'') \<or>
           truthy (dict_get (supplied w params) ''date'')"
  shows "gets (snd (get_station_readings w station_id params)) =
           (if lookup w (cache_key (readings_url w station_id)
                  (Some (dict_set ''_sorted'' [] (supplied w params))))
                 (CACHE_TIMEOUT (app w)) = None
            then gets w @ [(readings_url w station_id,
                  Some (dict_set ''_sorted'' [] (supplied w params)))]
            else gets w)"
  unfolding get_station_readings_bypass [OF assms] get_with_cache_gets
  by (simp add: ttl_of_None)

lemma sorted_always:
  assumes y: "minus_24_hours (wall w) = Inr y"
  shows "\<exists>d'. gets (snd (get_station_readings w station_id params)) =
              (if lookup w (cache_key (readings_url w station_id) (Some d')) (CACHE_TIMEOUT (app w)) = None
               then gets w @ [(readings_url w station_id, Some d')] else gets w) \<and>
            dict_get d' ''_sorted'' = Some []"
proof (cases "truthy (dict_get (supplied w params) ''today'') \<or>
           truthy (dict_get (supplied w params) ''since'') \<or>
           truthy (dict_get (supplied w params) ''date'')")
  case True
  show ?thesis
    by (rule exI [of _ "dict_set ''_sorted'' [] (supplied w params)"])
       (simp add: gets_bypass [OF True] dict_get_set)
next
  case False
  then have f: "\<not> truthy (dict_get (supplied w params) ''today'')"
    "\<not> truthy (dict_get (supplied w params) ''since'')"
    "\<not> truthy (dict_get (supplied w params) ''date'')"
    by simp_all
  show ?thesis
    by (rule exI [of _ "dict_set ''_sorted'' [] (dict_set ''since'' (isoformat y) (supplied w params))"])
       (simp add: gets_inject [OF f y] dict_get_set)
qed

section \<open>The example worlds\<close>

lemma started_fields:
  "cache started = Map.empty" "clock started = 1000" "gets started = []"
  "upstream started = up" "app started = Config" "heap started = (\<lambda>a. [])"
  "next_addr started = 1"
  "wall started = \<lparr>year = 2024, month = 3, day = 1, hour = 12, minute = 30, second = 5,
               microsecond = 0\<rparr>"
  by (simp_all add: started_def)

lemma ttl_of_started: "ttl_of started None = 300"
  by (simp add: ttl_of_def started_fields Config_def)

lemma started_fetch:
  "get_with_cache started url params None =
     (Inr (JObj [(''items'', JArr [JInt 0])]),
      started\<lparr>gets := [(url, params)], clock := 1001,
              cache := [cache_key url params \<mapsto> (1001, JObj [(''items'', JArr [JInt 0])])]\<rparr>)"
proof -
  have miss: "lookup started (cache_key url params) (ttl_of started None) = None"
    by (simp add: lookup_def started_fields)
  have rep: "upstream started (length (gets started)) url params =
               (Received (Response 200 (Some (JObj [(''items'', JArr [JInt 0])]))), 1)"
    by (simp add: started_fields up_def)
  from get_with_cache_fetched [OF miss rep] show ?thesis
    by (simp add: started_fields)
qed

lemma outage_fields:
  "cache outage = Map.empty" "clock outage = 1000" "gets outage = []"
  "upstream outage = flaky" "app outage = Config"
  by (simp_all add: outage_def started_fields)

lemma unknown_fields:
  "cache unknown = Map.empty" "clock unknown = 1000" "gets unknown = []"
  "upstream unknown = up_empty" "app unknown = Config"
  by (simp_all add: unknown_def started_fields)

lemma unknown_fetch:
  "get_with_cache unknown url params None =
     (Inr (JObj [(''items'', JArr [])]),
      unknown\<lparr>gets := [(url, params)], clock := 1001,
              cache := [cache_key url params \<mapsto> (1001, JObj [(''items'', JArr [])])]\<rparr>)"
proof -
  have miss: "lookup unknown (cache_key url params) (ttl_of unknown None) = None"
    by (simp add: lookup_def unknown_fields)
  have rep: "upstream unknown (length (gets unknown)) url params =
               (Received (Response 200 (Some (JObj [(''items'', JArr [])]))), 1)"
    by (simp add: unknown_fields up_empty_def)
  from get_with_cache_fetched [OF miss rep] show ?thesis
    by (simp add: unknown_fields)
qed

lemma world_fields:
  "cache blank_date = Map.empty" "gets blank_date = []" "wall blank_date = wall started"
  "heap blank_date = (\<lambda>a. [(''date'', [])])"
  "cache blank_since = Map.empty" "gets blank_since = []" "wall blank_since = wall started"
  "heap blank_since = (\<lambda>a. [(''since'', []), (''_sorted'', ''asc'')])"
  "cache dated = Map.empty" "gets dated = []" "wall dated = wall started"
  "heap dated = (\<lambda>a. [(''date'', ''2024-01-01'')])"
  by (simp_all add: blank_date_def blank_since_def dated_def started_fields)

lemma yesterday_started:
  "minus_24_hours (wall started) =
     Inr \<lparr>year = 2024, month = 2, day = 29, hour = 12, minute = 30, second = 5, microsecond = 0\<rparr>"
  by (simp add: started_fields minus_24_hours_def days_in_month_def is_leap_def)

lemma zpad_2: "zpad 2 n = [hexdigit (n div 10 mod 10), hexdigit (n mod 10)]"
proof -
  have "zpad (Suc (Suc 0)) n = [hexdigit (n div 10 mod 10), hexdigit (n mod 10)]" by simp
  then show ?thesis by (simp only: numeral_2_eq_2)
qed

lemma zpad_4:
  "zpad 4 n = [hexdigit (n div 1000 mod 10), hexdigit (n div 100 mod 10),
               hexdigit (n div 10 mod 10), hexdigit (n mod 10)]"
proof -
  have "zpad (Suc (Suc (Suc (Suc 0)))) n =
          [hexdigit (n div 1000 mod 10), hexdigit (n div 100 mod 10),
           hexdigit (n div 10 mod 10), hexdigit (n mod 10)]"
    by (simp add: div_mult2_eq [symmetric])
  moreover have "(4 :: nat) = Suc (Suc (Suc (Suc 0)))" by simp
  ultimately show ?thesis by (simp only:)
qed

lemma isoformat_yesterday:
  "isoformat \<lparr>year = 2024, month = 2, day = 29, hour = 12, minute = 30, second = 5, microsecond = 0\<rparr>
     = ''2024-02-29T12:30:05''"
  by (simp add: isoformat_def zpad_2 zpad_4 hexdigit_def)

section \<open>The claims\<close>

text \<open>
  C2 (cache hit idempotence). A call that returns a value, followed by the same call with
  no clock advance in between and a timeout above zero (so that the elapsed time, zero, is
  strictly less than the timeout): the second call returns the same value and leaves the
  world as it is, so it makes no GET and no write. The first call made exactly one GET,
  unless it was served from the cache itself.
\<close>

theorem cache_hit_idempotent:
  assumes first: "get_with_cache w url params timeout = (Inr v, w1)"
      and pos: "0 < ttl_of w timeout"
  shows "get_with_cache w1 url params timeout = (Inr v, w1) \<and>
         gets w1 = (if lookup w (cache_key url params) (ttl_of w timeout) = None
                    then gets w @ [(url, params)] else gets w)"
  using first pos by (rule second_call_hits)

theorem cache_hit_idempotent_witness:
  "fst (get_with_cache started ''u'' None None) = Inr (JObj [(''items'', JArr [JInt 0])]) \<and>
   get_with_cache (snd (get_with_cache started ''u'' None None)) ''u'' None None =
     (Inr (JObj [(''items'', JArr [JInt 0])]), snd (get_with_cache started ''u'' None None)) \<and>
   gets (snd (get_with_cache started ''u'' None None)) = [(''u'', None)]"
proof -
  have pos: "0 < ttl_of started None"
    by (simp add: ttl_of_started)
  have miss: "lookup started (cache_key ''u'' None) (ttl_of started None) = None"
    by (simp add: lookup_def started_fields)
  from cache_hit_idempotent [OF started_fetch pos, of "''u''" None] miss
  show ?thesis by (simp add: started_fetch started_fields)
qed

text \<open>
  C3 (cache expiry with unconditional overwrite). After any call for \<open>(url, params)\<close>, let
  the clock move by \<open>d\<close> seconds, \<open>d\<close> not less than the timeout. Then the second call
  makes a new GET for \<open>(url, params)\<close>; and when the upstream answers it with a success
  status and the JSON document \<open>data\<close>, the call stores \<open>data\<close> under the same key with
  the time of the store, whatever the key held before, and returns \<open>data\<close>. The clock is
  one that never runs backwards.
\<close>

theorem cache_expiry_refetch:
  assumes nf: "no_future w" and st: "steady w"
      and first: "get_with_cache w url params timeout = (r1, w1)"
      and adv: "ttl_of w timeout \<le> d"
  shows "gets (snd (get_with_cache (elapse d w1) url params timeout)) = gets w1 @ [(url, params)] \<and>
         (\<forall>st2 data dt.
            upstream w (length (gets w1)) url params = (Received (Response st2 (Some data)), dt) \<and>
            \<not> (400 \<le> st2 \<and> st2 < 600) \<longrightarrow>
            get_with_cache (elapse d w1) url params timeout =
              (Inr data,
               w1\<lparr>gets := gets w1 @ [(url, params)], clock := clock w1 + d + dt,
                  cache := (cache w1)(cache_key url params \<mapsto> (clock w1 + d + dt, data))\<rparr>))"
proof -
  from get_with_cache_env [OF first] have env: "app w1 = app w" "upstream w1 = upstream w" by simp_all
  have ttl: "ttl_of (elapse d w1) timeout = ttl_of w timeout"
    by (rule ttl_of_app) (simp add: env)
  have nf1: "no_future w1" by (rule no_future_get_with_cache [OF nf st first])
  have "lookup (elapse d w1) (cache_key url params) (ttl_of w timeout) = None"
  proof (cases "cache w1 (cache_key url params)")
    case None
    then show ?thesis by (simp add: lookup_def)
  next
    case (Some e)
    obtain t0 x where e: "e = (t0, x)" by (cases e)
    with Some nf1 have "t0 \<le> clock w1" unfolding no_future_def by blast
    with adv have "\<not> (clock w1 + d - t0 < ttl_of w timeout)" by linarith
    with Some e show ?thesis by (simp add: lookup_def)
  qed
  with ttl have miss: "lookup (elapse d w1) (cache_key url params) (ttl_of (elapse d w1) timeout) = None"
    by simp
  have goes: "gets (snd (get_with_cache (elapse d w1) url params timeout)) = gets w1 @ [(url, params)]"
    using miss by (simp add: get_with_cache_gets)
  have stores: "get_with_cache (elapse d w1) url params timeout =
              (Inr data,
               w1\<lparr>gets := gets w1 @ [(url, params)], clock := clock w1 + d + dt,
                  cache := (cache w1)(cache_key url params \<mapsto> (clock w1 + d + dt, data))\<rparr>)"
    if reply: "upstream w (length (gets w1)) url params = (Received (Response st2 (Some data)), dt)"
      and ok: "\<not> (400 \<le> st2 \<and> st2 < 600)" for st2 data dt
  proof -
    have rep: "upstream (elapse d w1) (length (gets (elapse d w1))) url params =
               (Received (Response st2 (Some data)), dt)"
      using reply by (simp add: env)
    from get_with_cache_fetched [OF miss rep ok] show ?thesis
      by (simp add: elapse_def)
  qed
  from goes stores show ?thesis by blast
qed

theorem cache_expiry_refetch_witness:
  "gets (snd (get_with_cache (elapse 300 (snd (get_with_cache started ''u'' None None)))
                ''u'' None None)) = [(''u'', None), (''u'', None)] \<and>
   get_with_cache (elapse 300 (snd (get_with_cache started ''u'' None None))) ''u'' None None =
     (Inr (JObj [(''items'', JArr [JInt 1])]),
      started\<lparr>gets := [(''u'', None), (''u'', None)], clock := 1302,
              cache := [cache_key ''u'' None \<mapsto> (1302, JObj [(''items'', JArr [JInt 1])])]\<rparr>)"
proof -
  have nf: "no_future started" by (simp add: no_future_def started_fields)
  have st: "steady started" by (simp add: steady_def started_fields up_def)
  have adv: "ttl_of started None \<le> 300" by (simp add: ttl_of_started)
  have rep: "upstream started
               (length (gets (started\<lparr>gets := [(''u'', None)], clock := 1001,
                  cache := [cache_key ''u'' None \<mapsto> (1001, JObj [(''items'', JArr [JInt 0])])]\<rparr>)))
               ''u'' None =
             (Received (Response 200 (Some (JObj [(''items'', JArr [JInt 1])]))), 1) \<and>
             \<not> (400 \<le> (200 :: int) \<and> (200 :: int) < 600)"
    by (simp add: started_fields up_def)
  note T = cache_expiry_refetch [OF nf st started_fetch adv, of "''u''" None]
  from T [THEN conjunct1] T [THEN conjunct2, THEN spec, THEN spec, THEN spec, THEN mp, OF rep]
  show ?thesis by (simp add: started_fetch started_fields elapse_def)
qed

text \<open>
  C10 (cache frame property). When the key is cached and its entry is fresh, the call
  returns the cached data and the world is left as it is: nothing is written, and the
  entry keeps its insertion time. Expiry is counted from that insertion time: once the
  clock is \<open>e\<close> later, with the timeout reached since the insertion, the next call goes
  upstream, however recent the last hit. And for any call, the entry of every key other
  than the derived one is unchanged.
\<close>

theorem cache_frame:
  "(\<forall>t0 d. cache w (cache_key url params) = Some (t0, d) \<and> clock w - t0 < ttl_of w timeout \<longrightarrow>
      get_with_cache w url params timeout = (Inr d, w) \<and>
      (\<forall>e. ttl_of w timeout \<le> clock w + e - t0 \<longrightarrow>
         gets (snd (get_with_cache (elapse e w) url params timeout)) = gets w @ [(url, params)]))
   \<and> (\<forall>k. k \<noteq> cache_key url params \<longrightarrow>
         cache (snd (get_with_cache w url params timeout)) k = cache w k)"
  by (auto simp: get_with_cache_def lookup_def ttl_of_def elapse_def Let_def
           split: option.splits prod.splits reply.splits)

theorem cache_frame_witness:
  "get_with_cache (snd (get_with_cache started ''u'' None None)) ''u'' None None =
     (Inr (JObj [(''items'', JArr [JInt 0])]), snd (get_with_cache started ''u'' None None)) \<and>
   gets (snd (get_with_cache (elapse 300 (snd (get_with_cache started ''u'' None None)))
           ''u'' None None)) = [(''u'', None), (''u'', None)] \<and>
   cache (snd (get_with_cache started ''u'' None None)) ''v'' = None"
proof -
  define w1 where "w1 = snd (get_with_cache started ''u'' None None)"
  have w1: "w1 = started\<lparr>gets := [(''u'', None)], clock := 1001,
              cache := [cache_key ''u'' None \<mapsto> (1001, JObj [(''items'', JArr [JInt 0])])]\<rparr>"
    by (simp add: w1_def started_fetch)
  have c: "cache w1 (cache_key ''u'' None) = Some (1001, JObj [(''items'', JArr [JInt 0])])"
    by (simp add: w1)
  have t: "clock w1 - 1001 < ttl_of w1 None"
    by (simp add: w1 ttl_of_def started_fields Config_def)
  have e: "ttl_of w1 None \<le> clock w1 + 300 - 1001"
    by (simp add: w1 ttl_of_def started_fields Config_def)
  have k: "''v'' \<noteq> cache_key ''u'' None"
    by (simp add: cache_key_def)
  from cache_frame [of w1 "''u''" None None] c t e
  have "get_with_cache w1 ''u'' None None = (Inr (JObj [(''items'', JArr [JInt 0])]), w1) \<and>
        gets (snd (get_with_cache (elapse 300 w1) ''u'' None None)) = gets w1 @ [(''u'', None)]"
    by blast
  moreover from cache_frame [of started "''u''" None None] k
  have "cache (snd (get_with_cache started ''u'' None None)) ''v'' = cache started ''v''"
    by blast
  ultimately show ?thesis
    unfolding w1_def [symmetric] by (simp add: w1 started_fields)
qed

text \<open>
  C4 (no negative caching, error atomicity), as the code has it: the statuses that raise are
  the ones \<^verbatim>\<open>raise_for_status\<close> rejects. A call that goes upstream and gets a 4xx or 5xx
  status raises \<^verbatim>\<open>HTTPError\<close>; the world changes in the list of GETs and in the clock
  only, so the cache is as it was and nothing is stored for the key. The call repeated,
  after waits \<open>ds\<close> that are not negative and under a clock that never runs backwards:
  as long as the upstream answers with such a status, every call raises, every call makes
  its own GET, and the cache stays as it was; the first success answer after them is
  returned and stored.
\<close>

theorem no_negative_caching:
  assumes miss: "lookup w (cache_key url params) (ttl_of w timeout) = None"
      and reply: "upstream w (length (gets w)) url params = (Received r, dt)"
      and bad: "400 \<le> status_code r" "status_code r < 600"
  shows "get_with_cache w url params timeout =
           (Inl (HTTPError (status_code r)),
            w\<lparr>gets := gets w @ [(url, params)], clock := clock w + dt\<rparr>) \<and>
         (steady w \<and> (\<forall>d\<in>set ds. 0 \<le> d) \<and>
          (\<forall>i\<le>length ds. http_error (upstream w (length (gets w) + i) url params)) \<longrightarrow>
            list_all is_HTTPError (fst (calls w url params timeout ds)) \<and>
            length (fst (calls w url params timeout ds)) = Suc (length ds) \<and>
            cache (snd (calls w url params timeout ds)) = cache w \<and>
            gets (snd (calls w url params timeout ds)) =
              gets w @ replicate (Suc (length ds)) (url, params) \<and>
            (\<forall>e st data dt'.
               0 \<le> e \<and>
               upstream w (length (gets w) + Suc (length ds)) url params =
                 (Received (Response st (Some data)), dt') \<and>
               \<not> (400 \<le> st \<and> st < 600) \<longrightarrow>
               fst (get_with_cache (elapse e (snd (calls w url params timeout ds)))
                      url params timeout) = Inr data \<and>
               (\<exists>t. cache (snd (get_with_cache (elapse e (snd (calls w url params timeout ds)))
                                 url params timeout))
                      (cache_key url params) = Some (t, data))))"
proof (intro conjI impI)
  show "get_with_cache w url params timeout =
           (Inl (HTTPError (status_code r)),
            w\<lparr>gets := gets w @ [(url, params)], clock := clock w + dt\<rparr>)"
    by (rule get_with_cache_http_error [OF miss reply bad])
next
  assume a: "steady w \<and> (\<forall>d\<in>set ds. 0 \<le> d) \<and>
          (\<forall>i\<le>length ds. http_error (upstream w (length (gets w) + i) url params))"
  define wn where "wn = snd (calls w url params timeout ds)"
  from a have st: "steady w" and ds: "\<forall>d\<in>set ds. 0 \<le> d"
    and errs: "\<forall>i\<le>length ds. http_error (upstream w (length (gets w) + i) url params)"
    by simp_all
  note all = calls_all_fail [OF st ds miss errs, folded wn_def]
  from all show "list_all is_HTTPError (fst (calls w url params timeout ds))" by simp
  from all show "length (fst (calls w url params timeout ds)) = Suc (length ds)" by simp
  from all show "cache (snd (calls w url params timeout ds)) = cache w" by (simp add: wn_def)
  from all show "gets (snd (calls w url params timeout ds)) =
              gets w @ replicate (Suc (length ds)) (url, params)" by (simp add: wn_def)
  have "\<forall>e st data dt'.
               0 \<le> e \<and>
               upstream w (length (gets w) + Suc (length ds)) url params =
                 (Received (Response st (Some data)), dt') \<and>
               \<not> (400 \<le> st \<and> st < 600) \<longrightarrow>
               fst (get_with_cache (elapse e wn) url params timeout) = Inr data \<and>
               (\<exists>t. cache (snd (get_with_cache (elapse e wn) url params timeout))
                      (cache_key url params) = Some (t, data))"
  proof (intro allI impI)
    fix e :: real and st' data dt'
    assume h: "0 \<le> e \<and>
               upstream w (length (gets w) + Suc (length ds)) url params =
                 (Received (Response st' (Some data)), dt') \<and>
               \<not> (400 \<le> st' \<and> st' < 600)"
    have ttl: "ttl_of (elapse e wn) timeout = ttl_of w timeout"
      by (rule ttl_of_app) (use all in simp)
    from all have "lookup wn (cache_key url params) (ttl_of w timeout) = None" by simp
    then have "lookup (elapse e wn) (cache_key url params) (ttl_of w timeout) = None"
      by (rule lookup_later) (use h in simp_all)
    with ttl have m: "lookup (elapse e wn) (cache_key url params) (ttl_of (elapse e wn) timeout) = None"
      by simp
    have rep: "upstream (elapse e wn) (length (gets (elapse e wn))) url params =
                 (Received (Response st' (Some data)), dt')"
      using all h by simp
    from h have ok: "\<not> (400 \<le> st' \<and> st' < 600)" by simp
    from get_with_cache_fetched [OF m rep ok]
    show "fst (get_with_cache (elapse e wn) url params timeout) = Inr data \<and>
          (\<exists>t. cache (snd (get_with_cache (elapse e wn) url params timeout))
                      (cache_key url params) = Some (t, data))"
      by simp
  qed
  then show "\<forall>e st data dt'.
               0 \<le> e \<and>
               upstream w (length (gets w) + Suc (length ds)) url params =
                 (Received (Response st (Some data)), dt') \<and>
               \<not> (400 \<le> st \<and> st < 600) \<longrightarrow>
               fst (get_with_cache (elapse e (snd (calls w url params timeout ds)))
                      url params timeout) = Inr data \<and>
               (\<exists>t. cache (snd (get_with_cache (elapse e (snd (calls w url params timeout ds)))
                                 url params timeout))
                      (cache_key url params) = Some (t, data))"
    by (simp only: wn_def)
qed

theorem no_negative_caching_witness:
  "get_with_cache outage ''u'' None None =
     (Inl (HTTPError 500), outage\<lparr>gets := [(''u'', None)], clock := 1001\<rparr>) \<and>
   list_all is_HTTPError (fst (calls outage ''u'' None None [5, 10])) \<and>
   length (fst (calls outage ''u'' None None [5, 10])) = 3 \<and>
   cache (snd (calls outage ''u'' None None [5, 10])) = Map.empty \<and>
   gets (snd (calls outage ''u'' None None [5, 10])) = [(''u'', None), (''u'', None), (''u'', None)] \<and>
   fst (get_with_cache (elapse 2 (snd (calls outage ''u'' None None [5, 10]))) ''u'' None None) =
     Inr (JObj [(''items'', JArr [JInt 3])])"
proof -
  have miss: "lookup outage (cache_key ''u'' None) (ttl_of outage None) = None"
    by (simp add: lookup_def outage_fields)
  have reply: "upstream outage (length (gets outage)) ''u'' None = (Received (Response 500 None), 1)"
    by (simp add: outage_fields flaky_def)
  have st: "steady outage"
    by (simp add: steady_def outage_fields flaky_def up_def)
  have errs: "\<forall>i\<le>length [5, 10 :: real]. http_error (upstream outage (length (gets outage) + i) ''u'' None)"
    by (simp add: outage_fields flaky_def http_error_def)
  have ok: "upstream outage (length (gets outage) + Suc (length [5, 10 :: real])) ''u'' None =
              (Received (Response 200 (Some (JObj [(''items'', JArr [JInt 3])]))), 1)"
    by (simp add: outage_fields flaky_def up_def)
  have b1: "400 \<le> status_code (Response 500 None)" and b2: "status_code (Response 500 None) < 600"
    by simp_all
  have pre: "steady outage \<and> (\<forall>d\<in>set [5, 10 :: real]. 0 \<le> d) \<and>
          (\<forall>i\<le>length [5, 10 :: real].
             http_error (upstream outage (length (gets outage) + i) ''u'' None))"
    using st errs by simp
  note T = no_negative_caching [OF miss reply b1 b2, of "[5, 10]"]
  note A = T [THEN conjunct1]
  note B = T [THEN conjunct2, THEN mp, OF pre]
  have h: "0 \<le> (2 :: real) \<and>
           upstream outage (length (gets outage) + Suc (length [5, 10 :: real])) ''u'' None =
             (Received (Response 200 (Some (JObj [(''items'', JArr [JInt 3])]))), 1) \<and>
           \<not> (400 \<le> (200 :: int) \<and> (200 :: int) < 600)"
    using ok by simp
  from B have "\<forall>e st data dt'.
               0 \<le> e \<and>
               upstream outage (length (gets outage) + Suc (length [5, 10 :: real])) ''u'' None =
                 (Received (Response st (Some data)), dt') \<and>
               \<not> (400 \<le> st \<and> st < 600) \<longrightarrow>
               fst (get_with_cache (elapse e (snd (calls outage ''u'' None None [5, 10])))
                      ''u'' None None) = Inr data \<and>
               (\<exists>t. cache (snd (get_with_cache (elapse e (snd (calls outage ''u'' None None [5, 10])))
                                 ''u'' None None))
                      (cache_key ''u'' None) = Some (t, data))"
    by (elim conjE)
  from this [THEN spec, THEN spec, THEN spec, THEN spec, THEN mp, OF h]
  have R: "fst (get_with_cache (elapse 2 (snd (calls outage ''u'' None None [5, 10])))
                      ''u'' None None) = Inr (JObj [(''items'', JArr [JInt 3])])"
    by (elim conjE)
  from A B R show ?thesis
    by (simp del: calls.simps add: outage_fields numeral_3_eq_3)
qed

text \<open>
  C4 as stated fails for a status that is not a success and not an error either: the
  upstream answers with 300 and a JSON body, \<^verbatim>\<open>raise_for_status\<close> lets it pass, the call
  returns the body and stores it, and the next call for the key is served from the cache
  with no second GET.
\<close>

theorem non_success_cached:
  "raise_for_status (Response 300 (Some (JObj [(''items'', JArr [JInt 0])]))) = None \<and>
   get_with_cache undecided ''u'' None None =
     (Inr (JObj [(''items'', JArr [JInt 0])]),
      undecided\<lparr>gets := [(''u'', None)], clock := 1001,
                cache := [cache_key ''u'' None \<mapsto> (1001, JObj [(''items'', JArr [JInt 0])])]\<rparr>) \<and>
   get_with_cache (snd (get_with_cache undecided ''u'' None None)) ''u'' None None =
     (Inr (JObj [(''items'', JArr [JInt 0])]), snd (get_with_cache undecided ''u'' None None)) \<and>
   gets (snd (get_with_cache (snd (get_with_cache undecided ''u'' None None)) ''u'' None None)) =
     [(''u'', None)]"
proof -
  have f: "cache undecided = Map.empty" "clock undecided = 1000" "gets undecided = []"
    "upstream undecided = choices" "app undecided = Config"
    by (simp_all add: undecided_def started_fields)
  have pass: "raise_for_status (Response 300 (Some (JObj [(''items'', JArr [JInt 0])]))) = None"
    by (simp add: raise_for_status_def)
  have miss: "lookup undecided (cache_key ''u'' None) (ttl_of undecided None) = None"
    by (simp add: lookup_def f)
  have rep: "upstream undecided (length (gets undecided)) ''u'' None =
               (Received (Response 300 (Some (JObj [(''items'', JArr [JInt 0])]))), 1)"
    by (simp add: f choices_def)
  have ok: "\<not> (400 \<le> (300 :: int) \<and> (300 :: int) < 600)" by simp
  from get_with_cache_fetched [OF miss rep ok]
  have first: "get_with_cache undecided ''u'' None None =
     (Inr (JObj [(''items'', JArr [JInt 0])]),
      undecided\<lparr>gets := [(''u'', None)], clock := 1001,
                cache := [cache_key ''u'' None \<mapsto> (1001, JObj [(''items'', JArr [JInt 0])])]\<rparr>)"
    by (simp add: f)
  have pos: "0 < ttl_of undecided None"
    by (simp add: ttl_of_def f Config_def)
  from second_call_hits [OF first pos]
  have again: "get_with_cache (snd (get_with_cache undecided ''u'' None None)) ''u'' None None =
     (Inr (JObj [(''items'', JArr [JInt 0])]), snd (get_with_cache undecided ''u'' None None))"
    by (simp add: first)
  then have "gets (snd (get_with_cache (snd (get_with_cache undecided ''u'' None None)) ''u'' None None)) =
     gets (snd (get_with_cache undecided ''u'' None None))"
    by simp
  then have once: "gets (snd (get_with_cache (snd (get_with_cache undecided ''u'' None None)) ''u'' None None)) =
     [(''u'', None)]"
    by (simp add: first)
  from pass first again once show ?thesis by (intro conjI)
qed

text \<open>
  C5 (readings parameter normalization), as the code has it. When none of the keys
  \<^verbatim>\<open>today\<close>, \<^verbatim>\<open>since\<close>, \<^verbatim>\<open>date\<close> is in the supplied parameters, the request that
  goes upstream carries \<^verbatim>\<open>since\<close> = the ISO format of now minus 24 hours. Every request
  that goes upstream carries \<^verbatim>\<open>_sorted\<close> = the empty string. When \<^verbatim>\<open>date\<close> is
  supplied with a value that is not empty, \<^verbatim>\<open>since\<close> is what the caller supplied, if
  anything. A request goes upstream exactly when its key is not cached and fresh.
\<close>

theorem readings_normalization:
  "(\<forall>y. dict_get (supplied w params) ''today'' = None \<and>
        dict_get (supplied w params) ''since'' = None \<and>
        dict_get (supplied w params) ''date'' = None \<and>
        minus_24_hours (wall w) = Inr y \<longrightarrow>
        (let d' = dict_set ''_sorted'' [] (dict_set ''since'' (isoformat y) (supplied w params))
         in gets (snd (get_station_readings w station_id params)) =
              (if lookup w (cache_key (readings_url w station_id) (Some d')) (CACHE_TIMEOUT (app w)) = None
               then gets w @ [(readings_url w station_id, Some d')] else gets w) \<and>
            dict_get d' ''since'' = Some (isoformat y) \<and>
            dict_get d' ''_sorted'' = Some []))
   \<and> (\<forall>y. minus_24_hours (wall w) = Inr y \<longrightarrow>
        (\<exists>d'. gets (snd (get_station_readings w station_id params)) =
              (if lookup w (cache_key (readings_url w station_id) (Some d')) (CACHE_TIMEOUT (app w)) = None
               then gets w @ [(readings_url w station_id, Some d')] else gets w) \<and>
            dict_get d' ''_sorted'' = Some []))
   \<and> (\<forall>v. dict_get (supplied w params) ''date'' = Some v \<and> v \<noteq> [] \<longrightarrow>
        (let d' = dict_set ''_sorted'' [] (supplied w params)
         in gets (snd (get_station_readings w station_id params)) =
              (if lookup w (cache_key (readings_url w station_id) (Some d')) (CACHE_TIMEOUT (app w)) = None
               then gets w @ [(readings_url w station_id, Some d')] else gets w) \<and>
            dict_get d' ''since'' = dict_get (supplied w params) ''since'' \<and>
            dict_get d' ''_sorted'' = Some []))"
proof (intro conjI allI impI)
  fix y
  assume a: "dict_get (supplied w params) ''today'' = None \<and>
        dict_get (supplied w params) ''since'' = None \<and>
        dict_get (supplied w params) ''date'' = None \<and>
        minus_24_hours (wall w) = Inr y"
  then have f: "\<not> truthy (dict_get (supplied w params) ''today'')"
    "\<not> truthy (dict_get (supplied w params) ''since'')"
    "\<not> truthy (dict_get (supplied w params) ''date'')"
    by (simp_all add: truthy_def)
  from a have y: "minus_24_hours (wall w) = Inr y" by simp
  show "let d' = dict_set ''_sorted'' [] (dict_set ''since'' (isoformat y) (supplied w params))
         in gets (snd (get_station_readings w station_id params)) =
              (if lookup w (cache_key (readings_url w station_id) (Some d')) (CACHE_TIMEOUT (app w)) = None
               then gets w @ [(readings_url w station_id, Some d')] else gets w) \<and>
            dict_get d' ''since'' = Some (isoformat y) \<and>
            dict_get d' ''_sorted'' = Some []"
    unfolding Let_def gets_inject [OF f y] by (simp add: dict_get_set)
next
  fix y
  assume y: "minus_24_hours (wall w) = Inr y"
  show "\<exists>d'. gets (snd (get_station_readings w station_id params)) =
              (if lookup w (cache_key (readings_url w station_id) (Some d')) (CACHE_TIMEOUT (app w)) = None
               then gets w @ [(readings_url w station_id, Some d')] else gets w) \<and>
            dict_get d' ''_sorted'' = Some []"
    by (rule sorted_always [OF y])
next
  fix v
  assume "dict_get (supplied w params) ''date'' = Some v \<and> v \<noteq> []"
  then have t: "truthy (dict_get (supplied w params) ''today'') \<or>
           truthy (dict_get (supplied w params) ''since'') \<or>
           truthy (dict_get (supplied w params) ''date'')"
    by (simp add: truthy_def)
  show "let d' = dict_set ''_sorted'' [] (supplied w params)
         in gets (snd (get_station_readings w station_id params)) =
              (if lookup w (cache_key (readings_url w station_id) (Some d')) (CACHE_TIMEOUT (app w)) = None
               then gets w @ [(readings_url w station_id, Some d')] else gets w) \<and>
            dict_get d' ''since'' = dict_get (supplied w params) ''since'' \<and>
            dict_get d' ''_sorted'' = Some []"
    unfolding Let_def gets_bypass [OF t] by (simp add: dict_get_set)
qed

theorem readings_normalization_witness:
  "gets (snd (get_station_readings started ''1029TH'' None)) =
     [(readings_url started ''1029TH'',
       Some [(''since'', ''2024-02-29T12:30:05''), (''_sorted'', [])])] \<and>
   gets (snd (get_station_readings dated ''1029TH'' (Some 0))) =
     [(readings_url dated ''1029TH'', Some [(''date'', ''2024-01-01''), (''_sorted'', [])])]"
proof -
  have s: "supplied started None = []" by (simp add: supplied_def)
  have a: "dict_get (supplied started None) ''today'' = None \<and>
        dict_get (supplied started None) ''since'' = None \<and>
        dict_get (supplied started None) ''date'' = None \<and>
        minus_24_hours (wall started) =
          Inr \<lparr>year = 2024, month = 2, day = 29, hour = 12, minute = 30, second = 5, microsecond = 0\<rparr>"
    by (simp add: s dict_get_def yesterday_started)
  note T = readings_normalization [of started None "''1029TH''"]
  from T [THEN conjunct1, THEN spec, THEN mp, OF a]
  have 1: "gets (snd (get_station_readings started ''1029TH'' None)) =
     [(readings_url started ''1029TH'',
       Some [(''since'', ''2024-02-29T12:30:05''), (''_sorted'', [])])]"
    by (simp add: Let_def s isoformat_yesterday lookup_empty started_fields)
  have sd: "supplied dated (Some 0) = [(''date'', ''2024-01-01'')]"
    by (simp add: supplied_def world_fields)
  have b: "dict_get (supplied dated (Some 0)) ''date'' = Some ''2024-01-01'' \<and> ''2024-01-01'' \<noteq> []"
    by (simp add: sd dict_get_def)
  note U = readings_normalization [of dated "Some 0" "''1029TH''"]
  from U [THEN conjunct2, THEN conjunct2, THEN spec, THEN mp, OF b]
  have 2: "gets (snd (get_station_readings dated ''1029TH'' (Some 0))) =
     [(readings_url dated ''1029TH'', Some [(''date'', ''2024-01-01''), (''_sorted'', [])])]"
    by (simp add: Let_def sd lookup_empty world_fields)
  from 1 2 show ?thesis by simp
qed

text \<open>
  C5 as stated fails for a \<^verbatim>\<open>date\<close> that is supplied with the empty string (the query
  string \<^verbatim>\<open>?date=\<close>): \<^verbatim>\<open>since\<close> is injected all the same.
\<close>

theorem since_despite_date:
  "dict_get (supplied blank_date (Some 0)) ''date'' = Some [] \<and>
   dict_get (supplied blank_date (Some 0)) ''since'' = None \<and>
   gets (snd (get_station_readings blank_date ''1029TH'' (Some 0))) =
     [(readings_url blank_date ''1029TH'',
       Some [(''date'', []), (''since'', ''2024-02-29T12:30:05''), (''_sorted'', [])])]"
proof -
  have s: "supplied blank_date (Some 0) = [(''date'', [])]"
    by (simp add: supplied_def world_fields)
  have f: "\<not> truthy (dict_get (supplied blank_date (Some 0)) ''today'')"
    "\<not> truthy (dict_get (supplied blank_date (Some 0)) ''since'')"
    "\<not> truthy (dict_get (supplied blank_date (Some 0)) ''date'')"
    by (simp_all add: s truthy_def dict_get_def)
  have y: "minus_24_hours (wall blank_date) =
     Inr \<lparr>year = 2024, month = 2, day = 29, hour = 12, minute = 30, second = 5, microsecond = 0\<rparr>"
    by (simp add: world_fields yesterday_started)
  show ?thesis
    unfolding gets_inject [OF f y]
    by (simp add: s dict_get_def isoformat_yesterday lookup_empty world_fields)
qed

text \<open>
  C6 (station by id). The view asks \<^verbatim>\<open>get_with_cache\<close> for the stations resource with
  the parameters \<^verbatim>\<open>{'stationReference': station_id}\<close>, and a GET it causes carries these
  parameters. When the result is a document whose \<^verbatim>\<open>items\<close> is a list: with at least
  one item the view returns the first item with status 200, with no item it returns status
  404 and the body \<^verbatim>\<open>{"error": "Station not found"}\<close>.
\<close>

theorem station_lookup:
  assumes query: "get_with_cache w (API_BASE_URL (app w) @ ''/id/stations'')
                    (Some [(''stationReference'', station_id)]) None = (Inr (JObj kvs), w')"
      and items: "map_of kvs ''items'' = Some (JArr xs)"
  shows "station w station_id =
           (case xs of
              x # _ \<Rightarrow> (Inr \<lparr>status = 200, body = x\<rparr>, w')
            | [] \<Rightarrow> (Inr \<lparr>status = 404, body = JObj [(''error'', JStr ''Station not found'')]\<rparr>, w'))
         \<and> (gets w' = gets w \<or>
            gets w' = gets w @ [(API_BASE_URL (app w) @ ''/id/stations'',
                                 Some [(''stationReference'', station_id)])])"
proof
  show "station w station_id =
           (case xs of
              x # _ \<Rightarrow> (Inr \<lparr>status = 200, body = x\<rparr>, w')
            | [] \<Rightarrow> (Inr \<lparr>status = 404, body = JObj [(''error'', JStr ''Station not found'')]\<rparr>, w'))"
    using query items
    by (simp add: station_def get_stations_def json_truthy_def jsonify_def split: list.splits)
next
  from get_with_cache_cases [OF query]
  show "gets w' = gets w \<or>
            gets w' = gets w @ [(API_BASE_URL (app w) @ ''/id/stations'',
                                 Some [(''stationReference'', station_id)])]"
    by auto
qed

theorem station_lookup_witness:
  "station started ''1029TH'' =
     (Inr \<lparr>status = 200, body = JInt 0\<rparr>,
      snd (get_with_cache started (API_BASE_URL (app started) @ ''/id/stations'')
             (Some [(''stationReference'', ''1029TH'')]) None)) \<and>
   station unknown ''UNKNOWN123'' =
     (Inr \<lparr>status = 404, body = JObj [(''error'', JStr ''Station not found'')]\<rparr>,
      snd (get_with_cache unknown (API_BASE_URL (app unknown) @ ''/id/stations'')
             (Some [(''stationReference'', ''UNKNOWN123'')]) None))"
proof -
  have i1: "map_of [(''items'', JArr [JInt 0])] ''items'' = Some (JArr [JInt 0])" by simp
  have i2: "map_of [(''items'', JArr [])] ''items'' = Some (JArr [])" by simp
  from station_lookup [OF started_fetch i1] station_lookup [OF unknown_fetch i2]
  show ?thesis by (simp add: started_fetch unknown_fetch)
qed

text \<open>
  C8 (parameter shaping), as the code has it: \<^verbatim>\<open>get_station_readings\<close> shapes the
  parameters in the caller's dict itself. After the call the caller's dict is the shaped
  parameter set: it holds \<^verbatim>\<open>_sorted\<close> = the empty string and, when none of
  \<^verbatim>\<open>today\<close>, \<^verbatim>\<open>since\<close>, \<^verbatim>\<open>date\<close> had a true value, the injected
  \<^verbatim>\<open>since\<close>. No other dict is changed.
\<close>

theorem readings_mutate_params:
  assumes y: "minus_24_hours (wall w) = Inr y"
  shows "heap (snd (get_station_readings w station_id (Some a))) a =
           (if \<not> truthy (dict_get (heap w a) ''today'') \<and>
               \<not> truthy (dict_get (heap w a) ''since'') \<and>
               \<not> truthy (dict_get (heap w a) ''date'')
            then dict_set ''_sorted'' [] (dict_set ''since'' (isoformat y) (heap w a))
            else dict_set ''_sorted'' [] (heap w a)) \<and>
         dict_get (heap (snd (get_station_readings w station_id (Some a))) a) ''_sorted'' = Some [] \<and>
         (\<forall>b. b \<noteq> a \<longrightarrow> heap (snd (get_station_readings w station_id (Some a))) b = heap w b)"
proof (cases "truthy (dict_get (supplied w (Some a)) ''today'') \<or>
           truthy (dict_get (supplied w (Some a)) ''since'') \<or>
           truthy (dict_get (supplied w (Some a)) ''date'')")
  case True
  show ?thesis
    unfolding get_station_readings_bypass [OF True] get_with_cache_heap
    using True by (auto simp add: supplied_def param_addr_def dict_get_set)
next
  case False
  then have f: "\<not> truthy (dict_get (supplied w (Some a)) ''today'')"
    "\<not> truthy (dict_get (supplied w (Some a)) ''since'')"
    "\<not> truthy (dict_get (supplied w (Some a)) ''date'')"
    by simp_all
  show ?thesis
    unfolding get_station_readings_inject [OF f y] get_with_cache_heap
    using f by (simp add: supplied_def param_addr_def dict_get_set)
qed

theorem readings_mutate_params_witness:
  "heap dated 0 = [(''date'', ''2024-01-01'')] \<and>
   heap (snd (get_station_readings dated ''1029TH'' (Some 0))) 0 =
     [(''date'', ''2024-01-01''), (''_sorted'', [])] \<and>
   heap (snd (get_station_readings dated ''1029TH'' (Some 0))) 1 = [(''date'', ''2024-01-01'')]"
proof -
  have y: "minus_24_hours (wall dated) =
     Inr \<lparr>year = 2024, month = 2, day = 29, hour = 12, minute = 30, second = 5, microsecond = 0\<rparr>"
    by (simp add: world_fields yesterday_started)
  have n: "(1 :: nat) \<noteq> 0" by simp
  note T = readings_mutate_params [OF y, of "''1029TH''" 0]
  from T [THEN conjunct1] T [THEN conjunct2, THEN conjunct2, THEN spec, THEN mp, OF n]
  show ?thesis
    by (simp add: world_fields truthy_def dict_get_def)
qed

text \<open>
  C8 as stated fails: a caller that passes its empty dict finds \<^verbatim>\<open>since\<close> and
  \<^verbatim>\<open>_sorted\<close> in it after the call.
\<close>

theorem caller_mapping_changed:
  "heap started 0 = [] \<and>
   heap (snd (get_station_readings started ''1029TH'' (Some 0))) 0 =
     [(''since'', ''2024-02-29T12:30:05''), (''_sorted'', [])]"
proof -
  have s: "supplied started (Some 0) = []" by (simp add: supplied_def started_fields)
  have f: "\<not> truthy (dict_get (supplied started (Some 0)) ''today'')"
    "\<not> truthy (dict_get (supplied started (Some 0)) ''since'')"
    "\<not> truthy (dict_get (supplied started (Some 0)) ''date'')"
    by (simp_all add: s truthy_def dict_get_def)
  show ?thesis
    unfolding get_station_readings_inject [OF f yesterday_started] get_with_cache_heap
    by (simp add: s param_addr_def isoformat_yesterday started_fields)
qed

text \<open>
  C9 (injection by truth value, not by presence). When each of \<^verbatim>\<open>today\<close>,
  \<^verbatim>\<open>since\<close>, \<^verbatim>\<open>date\<close> is absent or maps to the empty string, the request that goes
  upstream carries \<^verbatim>\<open>since\<close> = the ISO format of now minus 24 hours, in place of
  whatever \<^verbatim>\<open>since\<close> the caller supplied. And whatever \<^verbatim>\<open>_sorted\<close> the caller
  supplied, the request carries \<^verbatim>\<open>_sorted\<close> = the empty string.
\<close>

theorem injection_by_truthiness:
  assumes y: "minus_24_hours (wall w) = Inr y"
  shows "((\<forall>k\<in>{''today'', ''since'', ''date''}.
            dict_get (supplied w params) k = None \<or> dict_get (supplied w params) k = Some []) \<longrightarrow>
          (let d' = dict_set ''_sorted'' [] (dict_set ''since'' (isoformat y) (supplied w params))
           in gets (snd (get_station_readings w station_id params)) =
                (if lookup w (cache_key (readings_url w station_id) (Some d')) (CACHE_TIMEOUT (app w)) = None
                 then gets w @ [(readings_url w station_id, Some d')] else gets w) \<and>
              dict_get d' ''since'' = Some (isoformat y))) \<and>
         (\<exists>d'. gets (snd (get_station_readings w station_id params)) =
                (if lookup w (cache_key (readings_url w station_id) (Some d')) (CACHE_TIMEOUT (app w)) = None
                 then gets w @ [(readings_url w station_id, Some d')] else gets w) \<and>
              dict_get d' ''_sorted'' = Some [])"
proof (intro conjI impI)
  assume e: "\<forall>k\<in>{''today'', ''since'', ''date''}.
            dict_get (supplied w params) k = None \<or> dict_get (supplied w params) k = Some []"
  then have f: "\<not> truthy (dict_get (supplied w params) ''today'')"
    "\<not> truthy (dict_get (supplied w params) ''since'')"
    "\<not> truthy (dict_get (supplied w params) ''date'')"
    by (auto simp: truthy_def)
  show "let d' = dict_set ''_sorted'' [] (dict_set ''since'' (isoformat y) (supplied w params))
           in gets (snd (get_station_readings w station_id params)) =
                (if lookup w (cache_key (readings_url w station_id) (Some d')) (CACHE_TIMEOUT (app w)) = None
                 then gets w @ [(readings_url w station_id, Some d')] else gets w) \<and>
              dict_get d' ''since'' = Some (isoformat y)"
    unfolding Let_def gets_inject [OF f y] by (simp add: dict_get_set)
next
  show "\<exists>d'. gets (snd (get_station_readings w station_id params)) =
                (if lookup w (cache_key (readings_url w station_id) (Some d')) (CACHE_TIMEOUT (app w)) = None
                 then gets w @ [(readings_url w station_id, Some d')] else gets w) \<and>
              dict_get d' ''_sorted'' = Some []"
    by (rule sorted_always [OF y])
qed

theorem injection_by_truthiness_witness:
  "supplied blank_since (Some 0) = [(''since'', []), (''_sorted'', ''asc'')] \<and>
   gets (snd (get_station_readings blank_since ''1029TH'' (Some 0))) =
     [(readings_url blank_since ''1029TH'',
       Some [(''since'', ''2024-02-29T12:30:05''), (''_sorted'', [])])]"
proof -
  have s: "supplied blank_since (Some 0) = [(''since'', []), (''_sorted'', ''asc'')]"
    by (simp add: supplied_def world_fields)
  have y: "minus_24_hours (wall blank_since) =
     Inr \<lparr>year = 2024, month = 2, day = 29, hour = 12, minute = 30, second = 5, microsecond = 0\<rparr>"
    by (simp add: world_fields yesterday_started)
  have e: "\<forall>k\<in>{''today'', ''since'', ''date''}.
            dict_get (supplied blank_since (Some 0)) k = None \<or>
            dict_get (supplied blank_since (Some 0)) k = Some []"
    by (simp add: s dict_get_def)
  from injection_by_truthiness [OF y, of "Some 0" "''1029TH''", THEN conjunct1, THEN mp, OF e]
  show ?thesis
    by (simp add: Let_def s isoformat_yesterday lookup_empty world_fields)
qed

text \<open>
  C1 (cache key and insertion order), as the code has it. The key is the URL, a question
  mark and \<^verbatim>\<open>str(params)\<close>, which lists the items in insertion order: two mappings
  derive the same key exactly when they hold the same items in the same order. A mapping
  given twice in the same order: the second call (no clock advance, timeout above zero)
  returns the value of the first and makes no GET. Two mappings that differ, if only in
  the order of their items: the second call does not use the entry of the first and, its
  own key not being cached, makes a GET of its own.
\<close>

theorem key_follows_insertion_order:
  "(cache_key url (Some ps) = cache_key url (Some qs) \<longleftrightarrow> ps = qs) \<and>
   (\<forall>v w1. get_with_cache w url (Some ps) timeout = (Inr v, w1) \<and> 0 < ttl_of w timeout \<longrightarrow>
      get_with_cache w1 url (Some ps) timeout = (Inr v, w1)) \<and>
   (\<forall>r w1. get_with_cache w url (Some ps) timeout = (r, w1) \<and> ps \<noteq> qs \<and>
      cache w (cache_key url (Some qs)) = None \<longrightarrow>
      gets (snd (get_with_cache w1 url (Some qs) timeout)) = gets w1 @ [(url, Some qs)])"
proof (intro conjI allI impI)
  show "cache_key url (Some ps) = cache_key url (Some qs) \<longleftrightarrow> ps = qs"
    by (simp add: cache_key_inj)
next
  fix v w1
  assume "get_with_cache w url (Some ps) timeout = (Inr v, w1) \<and> 0 < ttl_of w timeout"
  then have "get_with_cache w url (Some ps) timeout = (Inr v, w1)" and "0 < ttl_of w timeout"
    by simp_all
  from second_call_hits [OF this]
  show "get_with_cache w1 url (Some ps) timeout = (Inr v, w1)" by simp
next
  fix r w1
  assume a: "get_with_cache w url (Some ps) timeout = (r, w1) \<and> ps \<noteq> qs \<and>
      cache w (cache_key url (Some qs)) = None"
  then have k: "cache_key url (Some qs) \<noteq> cache_key url (Some ps)"
    by (auto simp add: cache_key_inj)
  from a have "get_with_cache w url (Some ps) timeout = (r, w1)"
    and "cache w (cache_key url (Some qs)) = None" by simp_all
  from other_key_miss [OF this(1) k this(2)]
  show "gets (snd (get_with_cache w1 url (Some qs) timeout)) = gets w1 @ [(url, Some qs)]" .
qed

theorem key_follows_insertion_order_witness:
  "cache_key ''v'' (Some [(''a'', ''1''), (''b'', ''2'')]) \<noteq>
     cache_key ''v'' (Some [(''b'', ''2''), (''a'', ''1'')]) \<and>
   get_with_cache (snd (get_with_cache started ''v'' (Some [(''a'', ''1''), (''b'', ''2'')]) None))
       ''v'' (Some [(''a'', ''1''), (''b'', ''2'')]) None =
     (Inr (JObj [(''items'', JArr [JInt 0])]),
      snd (get_with_cache started ''v'' (Some [(''a'', ''1''), (''b'', ''2'')]) None)) \<and>
   gets (snd (get_with_cache
                (snd (get_with_cache started ''v'' (Some [(''a'', ''1''), (''b'', ''2'')]) None))
                ''v'' (Some [(''b'', ''2''), (''a'', ''1'')]) None)) =
     [(''v'', Some [(''a'', ''1''), (''b'', ''2'')]), (''v'', Some [(''b'', ''2''), (''a'', ''1'')])]"
proof -
  note T = key_follows_insertion_order
    [of "''v''" "[(''a'', ''1''), (''b'', ''2'')]" "[(''b'', ''2''), (''a'', ''1'')]" started None]
  have ne: "[(''a'', ''1''), (''b'', ''2'')] \<noteq> [(''b'', ''2''), (''a'', ''1'')]" by simp
  from T [THEN conjunct1] ne
  have 1: "cache_key ''v'' (Some [(''a'', ''1''), (''b'', ''2'')]) \<noteq>
     cache_key ''v'' (Some [(''b'', ''2''), (''a'', ''1'')])" by simp
  have h2: "get_with_cache started ''v'' (Some [(''a'', ''1''), (''b'', ''2'')]) None =
       (Inr (JObj [(''items'', JArr [JInt 0])]),
        snd (get_with_cache started ''v'' (Some [(''a'', ''1''), (''b'', ''2'')]) None)) \<and>
      0 < ttl_of started None"
    by (simp add: started_fetch ttl_of_started)
  from T [THEN conjunct2, THEN conjunct1, THEN spec, THEN spec, THEN mp, OF h2]
  have 2: "get_with_cache (snd (get_with_cache started ''v'' (Some [(''a'', ''1''), (''b'', ''2'')]) None))
       ''v'' (Some [(''a'', ''1''), (''b'', ''2'')]) None =
     (Inr (JObj [(''items'', JArr [JInt 0])]),
      snd (get_with_cache started ''v'' (Some [(''a'', ''1''), (''b'', ''2'')]) None))" .
  have h3: "get_with_cache started ''v'' (Some [(''a'', ''1''), (''b'', ''2'')]) None =
       (fst (get_with_cache started ''v'' (Some [(''a'', ''1''), (''b'', ''2'')]) None),
        snd (get_with_cache started ''v'' (Some [(''a'', ''1''), (''b'', ''2'')]) None)) \<and>
      [(''a'', ''1''), (''b'', ''2'')] \<noteq> [(''b'', ''2''), (''a'', ''1'')] \<and>
      cache started (cache_key ''v'' (Some [(''b'', ''2''), (''a'', ''1'')])) = None"
    by (simp add: started_fields)
  from T [THEN conjunct2, THEN conjunct2, THEN spec, THEN spec, THEN mp, OF h3]
  have 3: "gets (snd (get_with_cache
                (snd (get_with_cache started ''v'' (Some [(''a'', ''1''), (''b'', ''2'')]) None))
                ''v'' (Some [(''b'', ''2''), (''a'', ''1'')]) None)) =
     [(''v'', Some [(''a'', ''1''), (''b'', ''2'')]), (''v'', Some [(''b'', ''2''), (''a'', ''1'')])]"
    by (simp add: started_fetch)
  from 1 2 3 show ?thesis by (intro conjI)
qed

text \<open>
  C1 as stated fails for \<^verbatim>\<open>{'a': '1', 'b': '2'}\<close> and \<^verbatim>\<open>{'b': '2', 'a': '1'}\<close>: the
  keys differ, and the second call, made right after the first, goes upstream.
\<close>

theorem reordered_params_miss:
  "cache_key ''u'' (Some [(''a'', ''1''), (''b'', ''2'')]) =
     ''u?{'' @ [CHR 0x27] @ ''a'' @ [CHR 0x27] @ '': '' @ [CHR 0x27] @ ''1'' @ [CHR 0x27] @ '', '' @
     [CHR 0x27] @ ''b'' @ [CHR 0x27] @ '': '' @ [CHR 0x27] @ ''2'' @ [CHR 0x27] @ ''}'' \<and>
   cache_key ''u'' (Some [(''b'', ''2''), (''a'', ''1'')]) =
     ''u?{'' @ [CHR 0x27] @ ''b'' @ [CHR 0x27] @ '': '' @ [CHR 0x27] @ ''2'' @ [CHR 0x27] @ '', '' @
     [CHR 0x27] @ ''a'' @ [CHR 0x27] @ '': '' @ [CHR 0x27] @ ''1'' @ [CHR 0x27] @ ''}'' \<and>
   cache_key ''u'' (Some [(''a'', ''1''), (''b'', ''2'')]) \<noteq>
     cache_key ''u'' (Some [(''b'', ''2''), (''a'', ''1'')]) \<and>
   gets (snd (get_with_cache
                (snd (get_with_cache started ''u'' (Some [(''a'', ''1''), (''b'', ''2'')]) None))
                ''u'' (Some [(''b'', ''2''), (''a'', ''1'')]) None)) =
     [(''u'', Some [(''a'', ''1''), (''b'', ''2'')]), (''u'', Some [(''b'', ''2''), (''a'', ''1'')])]"
proof -
  have k: "cache_key ''u'' (Some [(''b'', ''2''), (''a'', ''1'')]) \<noteq>
           cache_key ''u'' (Some [(''a'', ''1''), (''b'', ''2'')])"
    by (simp add: cache_key_def py_str_ab py_str_ba)
  have c: "cache started (cache_key ''u'' (Some [(''b'', ''2''), (''a'', ''1'')])) = None"
    by (simp add: started_fields)
  from other_key_miss [OF started_fetch k c]
  have g: "gets (snd (get_with_cache
                (snd (get_with_cache started ''u'' (Some [(''a'', ''1''), (''b'', ''2'')]) None))
                ''u'' (Some [(''b'', ''2''), (''a'', ''1'')]) None)) =
     [(''u'', Some [(''a'', ''1''), (''b'', ''2'')]), (''u'', Some [(''b'', ''2''), (''a'', ''1'')])]"
    by (simp add: started_fetch)
  have ab: "cache_key ''u'' (Some [(''a'', ''1''), (''b'', ''2'')]) =
     ''u?{'' @ [CHR 0x27] @ ''a'' @ [CHR 0x27] @ '': '' @ [CHR 0x27] @ ''1'' @ [CHR 0x27] @ '', '' @
     [CHR 0x27] @ ''b'' @ [CHR 0x27] @ '': '' @ [CHR 0x27] @ ''2'' @ [CHR 0x27] @ ''}''"
    by (simp add: cache_key_def py_str_ab)
  have ba: "cache_key ''u'' (Some [(''b'', ''2''), (''a'', ''1'')]) =
     ''u?{'' @ [CHR 0x27] @ ''b'' @ [CHR 0x27] @ '': '' @ [CHR 0x27] @ ''2'' @ [CHR 0x27] @ '', '' @
     [CHR 0x27] @ ''a'' @ [CHR 0x27] @ '': '' @ [CHR 0x27] @ ''1'' @ [CHR 0x27] @ ''}''"
    by (simp add: cache_key_def py_str_ba)
  from ab ba k [symmetric] g show ?thesis by (intro conjI)
qed

text \<open>
  C7 (absent and empty parameters), as the code has it. \<^verbatim>\<open>params=None\<close> derives the key
  \<^verbatim>\<open>url?None\<close> and \<^verbatim>\<open>params={}\<close> the key \<^verbatim>\<open>url?{}\<close>. The keys differ: after a call
  with \<^verbatim>\<open>None\<close>, a call with \<^verbatim>\<open>{}\<close> does not use the entry of the first and, its
  own key not being cached, makes a GET of its own.
\<close>

theorem none_and_empty_keys:
  "cache_key url None = url @ ''?None'' \<and>
   cache_key url (Some []) = url @ ''?{}'' \<and>
   cache_key url None \<noteq> cache_key url (Some []) \<and>
   (\<forall>r w1. get_with_cache w url None timeout = (r, w1) \<and>
      cache w (cache_key url (Some [])) = None \<longrightarrow>
      gets (snd (get_with_cache w1 url (Some []) timeout)) = gets w1 @ [(url, Some [])])"
proof (intro conjI allI impI)
  show "cache_key url None = url @ ''?None''"
    by (simp add: cache_key_def py_str_def)
  show "cache_key url (Some []) = url @ ''?{}''"
    by (simp add: cache_key_def py_str_def repr_dict_def)
  show "cache_key url None \<noteq> cache_key url (Some [])"
    by (simp add: cache_key_def py_str_def repr_dict_def)
next
  fix r w1
  assume a: "get_with_cache w url None timeout = (r, w1) \<and>
      cache w (cache_key url (Some [])) = None"
  have k: "cache_key url (Some []) \<noteq> cache_key url None"
    by (simp add: cache_key_def py_str_def repr_dict_def)
  from a have "get_with_cache w url None timeout = (r, w1)"
    and "cache w (cache_key url (Some [])) = None" by simp_all
  from other_key_miss [OF this(1) k this(2)]
  show "gets (snd (get_with_cache w1 url (Some []) timeout)) = gets w1 @ [(url, Some [])]" .
qed

theorem none_and_empty_keys_witness:
  "cache_key ''v'' None = ''v?None'' \<and> cache_key ''v'' (Some []) = ''v?{}'' \<and>
   gets (snd (get_with_cache (snd (get_with_cache started ''v'' None None)) ''v'' (Some []) None)) =
     [(''v'', None), (''v'', Some [])]"
proof -
  note T = none_and_empty_keys [of "''v''" started None]
  have h: "get_with_cache started ''v'' None None =
             (fst (get_with_cache started ''v'' None None), snd (get_with_cache started ''v'' None None)) \<and>
           cache started (cache_key ''v'' (Some [])) = None"
    by (simp add: started_fields)
  from T [THEN conjunct2, THEN conjunct2, THEN conjunct2, THEN spec, THEN spec, THEN mp, OF h]
  have "gets (snd (get_with_cache (snd (get_with_cache started ''v'' None None)) ''v'' (Some []) None)) =
     [(''v'', None), (''v'', Some [])]"
    by (simp add: started_fetch)
  with T [THEN conjunct1] T [THEN conjunct2, THEN conjunct1] show ?thesis by simp
qed

text \<open>
  C7 as stated fails: a call with \<^verbatim>\<open>None\<close> and then, right after it, a call with
  \<^verbatim>\<open>{}\<close> make two GETs.
\<close>

theorem none_then_empty_miss:
  "cache_key ''u'' None = ''u?None'' \<and> cache_key ''u'' (Some []) = ''u?{}'' \<and>
   gets (snd (get_with_cache (snd (get_with_cache started ''u'' None None)) ''u'' (Some []) None)) =
     [(''u'', None), (''u'', Some [])]"
proof -
  have k: "cache_key ''u'' (Some []) \<noteq> cache_key ''u'' None"
    by (simp add: cache_key_def py_str_def repr_dict_def)
  have c: "cache started (cache_key ''u'' (Some [])) = None"
    by (simp add: started_fields)
  from other_key_miss [OF started_fetch k c]
  have g: "gets (snd (get_with_cache (snd (get_with_cache started ''u'' None None)) ''u'' (Some []) None)) =
     [(''u'', None), (''u'', Some [])]"
    by (simp add: started_fetch)
  have n: "cache_key ''u'' None = ''u?None''" by (simp add: cache_key_def py_str_def)
  have e: "cache_key ''u'' (Some []) = ''u?{}''" by (simp add: cache_key_def py_str_def repr_dict_def)
  from n e g show ?thesis by (intro conjI)
qed

end
